theory Spec2Isabelle
  imports Complex_Main "HOL-Library.AList" "HOL-Library.Multiset"
    "HOL-Library.Char_ord" "HOL-Library.List_Lexorder"
begin

section \<open>Python values used by the pipeline\<close>

text \<open>
  The exceptions the modelled code meets. \<open>ValueError\<close> is what \<open>int()\<close> and
  \<open>float()\<close> raise on text they reject; \<open>OverflowError\<close> is what the division of a
  float by an integer raises when the integer is beyond the range of a float;
  \<open>OSError\<close> (a missing or unreadable file) and \<open>BadZipFile\<close> (a file that is not a
  workbook) are what \<open>pd.read_excel\<close> raises.
\<close>

datatype py_error = ValueError | OverflowError | OSError | BadZipFile

subsection \<open>Floats\<close>

text \<open>
  A Python \<open>float\<close> is an IEEE 754 binary64 value. A finite value is modelled by the
  rational number it is; the two zeros, which Python compares equal, are one value here.
\<close>

datatype pyfloat = Fin rat | PosInf | NegInf | NaN

text \<open>\<open>n.bit_length()\<close> for an integer that is not negative.\<close>

function bit_length :: "int \<Rightarrow> int" where
  "bit_length n = (if n \<le> 0 then 0 else 1 + bit_length (n div 2))"
  by pat_completeness auto
termination
  by (relation "measure nat") auto

declare bit_length.simps [simp del]

text \<open>The integer \<open>k\<close> with \<open>2 ^ k \<le> q < 2 ^ (k + 1)\<close>, for a positive \<open>q\<close>.\<close>

definition floor_log2 :: "rat \<Rightarrow> int" where
  "floor_log2 q =
     (case quotient_of q of (n, d) \<Rightarrow>
        (let k = bit_length n - bit_length d
         in if 2 powi k \<le> q then k else k - 1))"

text \<open>Rounding a rational to the nearest integer, ties to the even neighbour.\<close>

definition round_half_even :: "rat \<Rightarrow> int" where
  "round_half_even y =
     (let f = \<lfloor>y\<rfloor>; d = y - of_int f
      in if d < 1 / 2 then f else if 1 / 2 < d then f + 1
         else if even f then f else f + 1)"

text \<open>
  The binary64 value nearest to a rational, ties to the even significand: the significand
  has 53 bits, the least exponent of its last bit is \<open>-1074\<close>, and a result of
  \<open>2 ^ 1024\<close> or more is an infinity. This is the rounding of every float operation below.
\<close>

definition to_double :: "rat \<Rightarrow> pyfloat" where
  "to_double q =
     (if q = 0 then Fin 0
      else (let a = \<bar>q\<bar>;
                e = max (floor_log2 a - 52) (- 1074);
                r = of_int (round_half_even (a / 2 powi e)) * 2 powi e
            in if 2 powi 1024 \<le> r then (if 0 < q then PosInf else NegInf)
               else Fin (if 0 < q then r else - r)))"

text \<open>\<open>x + y\<close> on floats.\<close>

fun fadd :: "pyfloat \<Rightarrow> pyfloat \<Rightarrow> pyfloat" where
  "fadd (Fin a) (Fin b) = to_double (a + b)"
| "fadd NaN _ = NaN"
| "fadd _ NaN = NaN"
| "fadd PosInf NegInf = NaN"
| "fadd NegInf PosInf = NaN"
| "fadd PosInf _ = PosInf"
| "fadd _ PosInf = PosInf"
| "fadd NegInf _ = NegInf"
| "fadd _ NegInf = NegInf"

text \<open>\<open>x / y\<close> on floats, for a finite positive \<open>y\<close>, given as the rational \<open>b\<close>.\<close>

fun fdiv :: "pyfloat \<Rightarrow> rat \<Rightarrow> pyfloat" where
  "fdiv (Fin a) b = to_double (a / b)"
| "fdiv x b = x"

text \<open>
  \<open>round(x, 2)\<close> on a float: the exact value is rounded to two decimals, ties to even,
  and the result is the float nearest to that decimal. A value that is not finite is
  returned unchanged.
\<close>

fun round2 :: "pyfloat \<Rightarrow> pyfloat" where
  "round2 (Fin a) = to_double (of_int (round_half_even (a * 100)) / 100)"
| "round2 x = x"

text \<open>\<open>x < 0\<close> on floats: false for NaN.\<close>

fun fnegative :: "pyfloat \<Rightarrow> bool" where
  "fnegative (Fin a) = (a < 0)"
| "fnegative NegInf = True"
| "fnegative _ = False"

text \<open>
  \<open>float(n)\<close> for an integer, as the division converts its divisor: \<open>OverflowError\<close>
  when the nearest float is not finite.
\<close>

definition float_of_int :: "int \<Rightarrow> py_error + rat" where
  "float_of_int n = (case to_double (of_int n) of Fin b \<Rightarrow> Inr b | _ \<Rightarrow> Inl OverflowError)"

subsection \<open>Amounts: the integer zero or a float\<close>

text \<open>
  The monetary variables of the pipeline hold a float, or the \<open>int\<close> \<open>0\<close> that the code
  substitutes for a blank field and starts every total with. The two behave differently
  under \<open>/\<close>, so they are kept apart.
\<close>

datatype amount = Int0 | Flt pyfloat

text \<open>\<open>x + y\<close>: \<open>0 + 0\<close> is the integer \<open>0\<close>, and \<open>0 + y\<close> is \<open>y\<close> for a float \<open>y\<close>.\<close>

fun amount_add :: "amount \<Rightarrow> amount \<Rightarrow> amount" where
  "amount_add Int0 y = y"
| "amount_add (Flt x) Int0 = Flt x"
| "amount_add (Flt x) (Flt y) = Flt (fadd x y)"

text \<open>\<open>round(x, 2)\<close>: an integer is returned as it is.\<close>

fun round_amount :: "amount \<Rightarrow> amount" where
  "round_amount Int0 = Int0"
| "round_amount (Flt x) = Flt (round2 x)"

text \<open>
  \<open>x / n\<close> for a positive integer \<open>n\<close>. \<open>0 / n\<close> on integers is the float \<open>0.0\<close>; a
  float numerator has \<open>n\<close> converted to a float first, which can raise.
\<close>

fun true_div :: "amount \<Rightarrow> int \<Rightarrow> py_error + amount" where
  "true_div Int0 n = Inr (Flt (Fin 0))"
| "true_div (Flt x) n =
     (case float_of_int n of Inl e \<Rightarrow> Inl e | Inr b \<Rightarrow> Inr (Flt (fdiv x b)))"

text \<open>\<open>x < 0\<close>\<close>

fun amount_negative :: "amount \<Rightarrow> bool" where
  "amount_negative Int0 = False"
| "amount_negative (Flt x) = fnegative x"

subsection \<open>Text: whitespace, case, decimal numerals\<close>

text \<open>
  A string is a list of code points below 256. \<open>str.strip()\<close> drops the characters for
  which \<open>str.isspace\<close> holds: space, the controls 0x09 to 0x0D and 0x1C to 0x1F, 0x85
  and 0xA0. \<open>int()\<close> and \<open>float()\<close> drop space, 0x09 to 0x0D, 0x85 and 0xA0 only.
\<close>

definition py_isspace :: "char \<Rightarrow> bool" where
  "py_isspace c =
     (let n = (of_char c :: nat)
      in n = 32 \<or> (9 \<le> n \<and> n \<le> 13) \<or> (28 \<le> n \<and> n \<le> 31) \<or> n = 133 \<or> n = 160)"

definition py_strip :: "string \<Rightarrow> string" where
  "py_strip s = rev (dropWhile py_isspace (rev (dropWhile py_isspace s)))"

definition number_space :: "char \<Rightarrow> bool" where
  "number_space c =
     (let n = (of_char c :: nat) in n = 32 \<or> (9 \<le> n \<and> n \<le> 13) \<or> n = 133 \<or> n = 160)"

definition number_strip :: "string \<Rightarrow> string" where
  "number_strip s = rev (dropWhile number_space (rev (dropWhile number_space s)))"

text \<open>Lower case of an ASCII letter, as the comparison with \<open>inf\<close> and \<open>nan\<close> needs it.\<close>

definition to_lower :: "char \<Rightarrow> char" where
  "to_lower c = (let n = (of_char c :: nat) in if 65 \<le> n \<and> n \<le> 90 then char_of (n + 32) else c)"

text \<open>
  \<open>str.upper()\<close>, character by character: the ASCII letters, the Latin-1 letters whose
  capital is a code point below 256, and the sharp s, whose capital is \<open>SS\<close>. The capitals
  of 0xB5 and 0xFF lie beyond 255 and those two are left as they are.
\<close>

definition to_upper :: "char \<Rightarrow> string" where
  "to_upper c =
     (let n = (of_char c :: nat)
      in if 97 \<le> n \<and> n \<le> 122 then [char_of (n - 32)]
         else if n = 223 then ''SS''
         else if 224 \<le> n \<and> n \<le> 254 \<and> n \<noteq> 247 then [char_of (n - 32)]
         else [c])"

definition py_upper :: "string \<Rightarrow> string" where
  "py_upper s = concat (map to_upper s)"

definition is_digit :: "char \<Rightarrow> bool" where
  "is_digit c = (let n = (of_char c :: nat) in 48 \<le> n \<and> n \<le> 57)"

definition digit_val :: "char \<Rightarrow> nat" where
  "digit_val c = of_char c - 48"

text \<open>
  The grammar's \<open>digitpart\<close>: digits, with single underscores allowed between two
  digits. The result is the list of digit values, or \<open>None\<close> when the whole text is not a
  digitpart.
\<close>

fun digitpart :: "string \<Rightarrow> nat list option" where
  "digitpart [] = None"
| "digitpart [c] = (if is_digit c then Some [digit_val c] else None)"
| "digitpart (c # d # cs) =
     (if is_digit c
      then map_option (Cons (digit_val c)) (digitpart (if d = CHR ''_'' then cs else d # cs))
      else None)"

definition nat_of_digits :: "nat list \<Rightarrow> nat" where
  "nat_of_digits ds = foldl (\<lambda>a d. 10 * a + d) 0 ds"

text \<open>An optional sign in front of the rest of the text.\<close>

fun split_sign :: "string \<Rightarrow> bool \<times> string" where
  "split_sign [] = (False, [])"
| "split_sign (c # cs) =
     (if c = CHR ''-'' then (True, cs) else if c = CHR ''+'' then (False, cs) else (False, c # cs))"

text \<open>
  \<open>int(s)\<close> for a string, base 10: \<open>None\<close> is the \<open>ValueError\<close>. The interpreter
  refuses a numeral of more than 4300 digits (\<open>sys.int_info.default_max_str_digits\<close>).
\<close>

definition py_int :: "string \<Rightarrow> int option" where
  "py_int s =
     (case split_sign (number_strip s) of (neg, body) \<Rightarrow>
        (case digitpart body of
           None \<Rightarrow> None
         | Some ds \<Rightarrow>
             if 4300 < length ds then None
             else Some (if neg then - int (nat_of_digits ds) else int (nat_of_digits ds))))"

text \<open>The text before the first character satisfying \<open>P\<close>, and the text after it if any.\<close>

definition split_first :: "(char \<Rightarrow> bool) \<Rightarrow> string \<Rightarrow> string \<times> string option" where
  "split_first P s =
     (takeWhile (\<lambda>c. \<not> P c) s,
      case dropWhile (\<lambda>c. \<not> P c) s of [] \<Rightarrow> None | _ # r \<Rightarrow> Some r)"

text \<open>
  The grammar's \<open>number\<close>: \<open>[digitpart] "." digitpart | digitpart ["."]\<close>, as a rational.
\<close>

definition py_number :: "string \<Rightarrow> rat option" where
  "py_number m =
     (case split_first (\<lambda>c. c = CHR ''.'') m of
        (ip, None) \<Rightarrow> map_option (\<lambda>ds. of_nat (nat_of_digits ds)) (digitpart ip)
      | (ip, Some fp) \<Rightarrow>
          if fp = [] then map_option (\<lambda>ds. of_nat (nat_of_digits ds)) (digitpart ip)
          else (case digitpart fp of
                  None \<Rightarrow> None
                | Some fs \<Rightarrow>
                    if ip = [] then Some (of_nat (nat_of_digits fs) / 10 ^ length fs)
                    else map_option
                           (\<lambda>ds. of_nat (nat_of_digits ds)
                                  + of_nat (nat_of_digits fs) / 10 ^ length fs)
                           (digitpart ip)))"

text \<open>The grammar's \<open>exponent\<close> after the \<open>e\<close>: \<open>[sign] digitpart\<close>.\<close>

definition py_exponent :: "string \<Rightarrow> int option" where
  "py_exponent e =
     (case split_sign e of (neg, body) \<Rightarrow>
        map_option (\<lambda>ds. if neg then - int (nat_of_digits ds) else int (nat_of_digits ds))
          (digitpart body))"

text \<open>The grammar's \<open>floatnumber\<close>: \<open>number [exponent]\<close>, as the rational it writes.\<close>

definition py_floatnumber :: "string \<Rightarrow> rat option" where
  "py_floatnumber t =
     (case split_first (\<lambda>c. c = CHR ''e'' \<or> c = CHR ''E'') t of
        (m, None) \<Rightarrow> py_number m
      | (m, Some e) \<Rightarrow>
          (case py_number m of
             None \<Rightarrow> None
           | Some q \<Rightarrow> map_option (\<lambda>x. q * 10 powi x) (py_exponent e)))"

text \<open>
  \<open>float(s)\<close> for a string: surrounding whitespace, an optional sign, then a
  floatnumber or one of \<open>inf\<close>, \<open>infinity\<close>, \<open>nan\<close> in any case. The result is the
  float nearest to the number written. \<open>None\<close> is the \<open>ValueError\<close>.
\<close>

definition py_float :: "string \<Rightarrow> pyfloat option" where
  "py_float s =
     (case split_sign (number_strip s) of (neg, body) \<Rightarrow>
        (let low = map to_lower body in
         if low = ''inf'' \<or> low = ''infinity'' then Some (if neg then NegInf else PosInf)
         else if low = ''nan'' then Some NaN
         else map_option (\<lambda>q. to_double (if neg then - q else q)) (py_floatnumber body)))"

section \<open>The pricing extractor: \<open>load_hospital_price_data\<close>\<close>

text \<open>
  A row of the pipe-delimited extract as \<open>csv.DictReader\<close> yields it: the text of the six
  columns the loop reads.
\<close>

record csv_row =
  r_provnum :: string
  r_category :: string
  r_volume :: string
  r_TotalCharges :: string
  r_TotalCost :: string
  r_TotalPaid :: string

text \<open>
  The local variables of one pass of the loop after lines 29 to 39: the two keys, the
  volume, the three amounts and the three averages.
\<close>

record parsed_row =
  p_provnum :: string
  p_category :: string
  p_volume :: int
  p_total_charges :: amount
  p_total_cost :: amount
  p_total_paid :: amount
  p_avg_charge :: amount
  p_avg_cost :: amount
  p_avg_paid :: amount

text \<open>The per-procedure dictionary stored at line 42.\<close>

record procedure_stat =
  volume :: int
  total_charges :: amount
  total_cost :: amount
  total_paid :: amount
  avg_charge :: amount
  avg_cost :: amount
  avg_paid :: amount

text \<open>
  One value of the \<open>defaultdict\<close>: the procedures of a facility and its running totals.
  A Python \<open>dict\<close> keeps insertion order and assignment to an existing key keeps the key's
  place, which is what \<open>AList.update\<close> does on an association list.
\<close>

record hospital_acc =
  acc_procedures :: "(string \<times> procedure_stat) list"
  acc_total_volume :: int
  acc_total_charges :: amount
  acc_total_cost :: amount
  acc_total_paid :: amount

type_synonym hospitals_data = "(string \<times> hospital_acc) list"

text \<open>\<open>int(row['volume']) if row['volume'] else 0\<close>\<close>

definition parse_volume :: "string \<Rightarrow> py_error + int" where
  "parse_volume s =
     (if s = [] then Inr 0 else case py_int s of None \<Rightarrow> Inl ValueError | Some v \<Rightarrow> Inr v)"

text \<open>\<open>float(row['TotalCharges']) if row['TotalCharges'] else 0\<close>\<close>

definition parse_amount :: "string \<Rightarrow> py_error + amount" where
  "parse_amount s =
     (if s = [] then Inr Int0
      else case py_float s of None \<Rightarrow> Inl ValueError | Some x \<Rightarrow> Inr (Flt x))"

text \<open>\<open>x / volume if volume > 0 else 0\<close>\<close>

definition average :: "amount \<Rightarrow> int \<Rightarrow> py_error + amount" where
  "average x v = (if v > 0 then true_div x v else Inr Int0)"

text \<open>Lines 29 to 39, in the order the conversions and the divisions run.\<close>

definition parse_row :: "csv_row \<Rightarrow> py_error + parsed_row" where
  "parse_row row =
     (case parse_volume (r_volume row) of
        Inl e \<Rightarrow> Inl e
      | Inr v \<Rightarrow>
     (case parse_amount (r_TotalCharges row) of
        Inl e \<Rightarrow> Inl e
      | Inr tc \<Rightarrow>
     (case parse_amount (r_TotalCost row) of
        Inl e \<Rightarrow> Inl e
      | Inr tco \<Rightarrow>
     (case parse_amount (r_TotalPaid row) of
        Inl e \<Rightarrow> Inl e
      | Inr tp \<Rightarrow>
     (case average tc v of
        Inl e \<Rightarrow> Inl e
      | Inr ac \<Rightarrow>
     (case average tco v of
        Inl e \<Rightarrow> Inl e
      | Inr aco \<Rightarrow>
     (case average tp v of
        Inl e \<Rightarrow> Inl e
      | Inr ap \<Rightarrow>
          Inr \<lparr>p_provnum = r_provnum row, p_category = r_category row, p_volume = v,
               p_total_charges = tc, p_total_cost = tco, p_total_paid = tp,
               p_avg_charge = ac, p_avg_cost = aco, p_avg_paid = ap\<rparr>)))))))"

text \<open>Lines 42 to 50: the stored per-procedure dictionary.\<close>

definition procedure_stat_of :: "parsed_row \<Rightarrow> procedure_stat" where
  "procedure_stat_of p =
     \<lparr>volume = p_volume p,
      total_charges = round_amount (p_total_charges p),
      total_cost = round_amount (p_total_cost p),
      total_paid = round_amount (p_total_paid p),
      avg_charge = round_amount (p_avg_charge p),
      avg_cost = round_amount (p_avg_cost p),
      avg_paid = round_amount (p_avg_paid p)\<rparr>"

text \<open>The \<open>defaultdict\<close>'s factory.\<close>

definition default_acc :: hospital_acc where
  "default_acc =
     \<lparr>acc_procedures = [], acc_total_volume = 0, acc_total_charges = Int0,
      acc_total_cost = Int0, acc_total_paid = Int0\<rparr>"

text \<open>\<open>hospitals_data[provnum]\<close> read through the \<open>defaultdict\<close>.\<close>

definition get_acc :: "hospitals_data \<Rightarrow> string \<Rightarrow> hospital_acc" where
  "get_acc hdata k = (case map_of hdata k of None \<Rightarrow> default_acc | Some h \<Rightarrow> h)"

text \<open>Lines 42 to 56 on the facility's own entry.\<close>

definition update_acc :: "hospital_acc \<Rightarrow> parsed_row \<Rightarrow> hospital_acc" where
  "update_acc h p =
     \<lparr>acc_procedures = AList.update (p_category p) (procedure_stat_of p) (acc_procedures h),
      acc_total_volume = acc_total_volume h + p_volume p,
      acc_total_charges = amount_add (acc_total_charges h) (p_total_charges p),
      acc_total_cost = amount_add (acc_total_cost h) (p_total_cost p),
      acc_total_paid = amount_add (acc_total_paid h) (p_total_paid p)\<rparr>"

definition accumulate :: "hospitals_data \<Rightarrow> parsed_row \<Rightarrow> hospitals_data" where
  "accumulate hdata p =
     AList.update (p_provnum p) (update_acc (get_acc hdata (p_provnum p)) p) hdata"

text \<open>The body of the \<open>for\<close> loop: an exception leaves the loop and the function.\<close>

definition process_row :: "hospitals_data \<Rightarrow> csv_row \<Rightarrow> py_error + hospitals_data" where
  "process_row hdata row =
     (case parse_row row of Inl e \<Rightarrow> Inl e | Inr p \<Rightarrow> Inr (accumulate hdata p))"

fun load_loop :: "hospitals_data \<Rightarrow> csv_row list \<Rightarrow> py_error + hospitals_data" where
  "load_loop hdata [] = Inr hdata"
| "load_loop hdata (row # rows) =
     (case process_row hdata row of Inl e \<Rightarrow> Inl e | Inr hdata' \<Rightarrow> load_loop hdata' rows)"

definition load_hospital_price_data :: "csv_row list \<Rightarrow> py_error + hospitals_data" where
  "load_hospital_price_data rows = load_loop [] rows"

text \<open>
  The local variables of all passes of the loop, in file order, when no pass raises;
  otherwise the exception of the first pass that does.
\<close>

fun parse_rows :: "csv_row list \<Rightarrow> py_error + parsed_row list" where
  "parse_rows [] = Inr []"
| "parse_rows (row # rows) =
     (case parse_row row of
        Inl e \<Rightarrow> Inl e
      | Inr p \<Rightarrow> (case parse_rows rows of Inl e \<Rightarrow> Inl e | Inr ps \<Rightarrow> Inr (p # ps)))"

section \<open>The reference loaders\<close>

text \<open>
  A cell of a table read by \<open>pd.read_excel\<close>: a missing value (NaN), an integer, a
  float or a string. A float cell carries its value and the text \<open>str()\<close> prints for it
  (for instance \<open>1\<close> and \<open>''1.0''\<close>); other cell types are not modelled. A row maps the
  column names of the table to cells.
\<close>

datatype cell = CNaN | CInt int | CFloat rat string | CStr string

type_synonym xl_row = "string \<rightharpoonup> cell"

fun digit_char :: "nat \<Rightarrow> char" where
  "digit_char n = char_of (48 + n)"

fun show_nat :: "nat \<Rightarrow> string" where
  "show_nat n = (if n < 10 then [digit_char n] else show_nat (n div 10) @ [digit_char (n mod 10)])"

declare show_nat.simps [simp del]

definition show_int :: "int \<Rightarrow> string" where
  "show_int i = (if i < 0 then CHR ''-'' # show_nat (nat (- i)) else show_nat (nat i))"

text \<open>\<open>str(x)\<close>\<close>

fun py_str :: "cell \<Rightarrow> string" where
  "py_str CNaN = ''nan''"
| "py_str (CInt i) = show_int i"
| "py_str (CFloat q t) = t"
| "py_str (CStr s) = s"

text \<open>\<open>pd.notna(x)\<close>\<close>

fun notna :: "cell \<Rightarrow> bool" where
  "notna CNaN = False"
| "notna _ = True"

text \<open>\<open>str(row.get(k, '')).strip()\<close>\<close>

definition get_str :: "xl_row \<Rightarrow> string \<Rightarrow> string" where
  "get_str row k = py_strip (case row k of None \<Rightarrow> [] | Some c \<Rightarrow> py_str c)"

text \<open>\<open>pd.notna(row.get(k))\<close>: a column the table lacks gives \<open>None\<close>, which is not a value.\<close>

definition get_notna :: "xl_row \<Rightarrow> string \<Rightarrow> bool" where
  "get_notna row k = (case row k of None \<Rightarrow> False | Some c \<Rightarrow> notna c)"

text \<open>\<open>str(row.get(k, '')).strip() if pd.notna(row.get(k)) else ''\<close>\<close>

definition get_str_notna :: "xl_row \<Rightarrow> string \<Rightarrow> string" where
  "get_str_notna row k = (if get_notna row k then get_str row k else [])"

subsection \<open>\<open>load_facility_data\<close>\<close>

text \<open>
  The keys of \<open>hospital_type_map\<close> are numbers, and Python compares and hashes \<open>1\<close> and
  \<open>1.0\<close> alike, so a key is modelled by its value. The entries are listed as the source
  lists them, the integer and the float spelling of each code.
\<close>

definition hospital_type_map :: "(rat \<times> string) list" where
  "hospital_type_map =
     [(1, ''Short-Term Acute''), (1, ''Short-Term Acute''),
      (2, ''Psychiatric''), (2, ''Psychiatric''),
      (4, ''Rehabilitation''), (4, ''Rehabilitation''),
      (5, ''Religious Non-Medical''), (5, ''Religious Non-Medical''),
      (6, ''Childrens''), (6, ''Childrens''),
      (7, ''Critical Access''), (7, ''Critical Access''),
      (11, ''Long Term Care''), (11, ''Long Term Care'')]"

definition ownership_map :: "(string \<times> string) list" where
  "ownership_map =
     [(''01'', ''Government, Federal''),
      (''02'', ''Government, State''),
      (''03'', ''Government, Local''),
      (''04'', ''Government, Hospital District''),
      (''05'', ''Government, City/County''),
      (''06'', ''Voluntary Non-Profit, Church''),
      (''07'', ''Voluntary Non-Profit, Private''),
      (''08'', ''Voluntary Non-Profit, Other''),
      (''09'', ''Proprietary, Individual''),
      (''10'', ''Proprietary, Partnership''),
      (''11'', ''Proprietary, Corporation''),
      (''12'', ''Proprietary, Limited Liability Company''),
      (''13'', ''Voluntary Non-Profit, Private''),
      (''1A'', ''Government, Federal''),
      (''1B'', ''Government, State''),
      (''1C'', ''Government, Local''),
      (''2A'', ''Voluntary Non-Profit, Church''),
      (''2B'', ''Voluntary Non-Profit, Other''),
      (''2C'', ''Voluntary Non-Profit, Private''),
      (''30'', ''Government, Other'')]"

text \<open>\<open>d.get(k, '')\<close>\<close>

definition get_label :: "('k \<times> string) list \<Rightarrow> 'k \<Rightarrow> string" where
  "get_label d k = (case map_of d k of None \<Rightarrow> [] | Some l \<Rightarrow> l)"

text \<open>
  \<open>hospital_type_map.get(code, '') if pd.notna(code) else ''\<close>: the cell itself is the
  key, so a string never matches a numeric key. An absent column gives \<open>None\<close>.
\<close>

fun hospital_type_of :: "cell option \<Rightarrow> string" where
  "hospital_type_of (Some (CInt i)) = get_label hospital_type_map (of_int i)"
| "hospital_type_of (Some (CFloat q t)) = get_label hospital_type_map q"
| "hospital_type_of _ = []"

text \<open>\<open>ownership_map.get(str(code).strip(), '') if pd.notna(code) else ''\<close>\<close>

fun ownership_of :: "cell option \<Rightarrow> string" where
  "ownership_of None = []"
| "ownership_of (Some c) = (if notna c then get_label ownership_map (py_strip (py_str c)) else [])"

text \<open>\<open>int(x)\<close> for a cell that is not NaN: a float is truncated towards zero.\<close>

fun int_of_cell :: "cell \<Rightarrow> py_error + int" where
  "int_of_cell (CInt i) = Inr i"
| "int_of_cell (CFloat q t) = Inr (if q < 0 then - \<lfloor>- q\<rfloor> else \<lfloor>q\<rfloor>)"
| "int_of_cell (CStr s) = (case py_int s of None \<Rightarrow> Inl ValueError | Some i \<Rightarrow> Inr i)"
| "int_of_cell CNaN = Inl ValueError"

text \<open>\<open>int(row.get('beds_total', 0)) if pd.notna(row.get('beds_total')) else 0\<close>\<close>

definition get_beds_total :: "xl_row \<Rightarrow> py_error + int" where
  "get_beds_total row =
     (case row ''beds_total'' of
        None \<Rightarrow> Inr 0
      | Some c \<Rightarrow> if notna c then int_of_cell c else Inr 0)"

record facility_info =
  fi_name :: string
  fi_city :: string
  fi_state :: string
  fi_zip_code :: string
  fi_beds_total :: int
  fi_hospital_type :: string
  fi_ownership :: string

type_synonym facility_map = "(string \<times> facility_info) list"

text \<open>The guard of line 117.\<close>

definition keeps_row :: "xl_row \<Rightarrow> bool" where
  "keeps_row row =
     (get_str row ''provnum'' \<noteq> [] \<and> get_str row ''facility_name'' \<noteq> []
      \<and> get_str row ''facility_name'' \<noteq> ''nan'')"

text \<open>The body of the loop of lines 113 to 134; only \<open>int()\<close> can raise in it.\<close>

definition facility_step :: "facility_map \<Rightarrow> xl_row \<Rightarrow> py_error + facility_map" where
  "facility_step facility_map row =
     (if keeps_row row
      then (case get_beds_total row of
              Inl e \<Rightarrow> Inl e
            | Inr beds \<Rightarrow>
                Inr (AList.update (get_str row ''provnum'')
                      \<lparr>fi_name = get_str row ''facility_name'',
                       fi_city = get_str_notna row ''city'',
                       fi_state = get_str_notna row ''state_code'',
                       fi_zip_code = get_str_notna row ''zip_code'',
                       fi_beds_total = beds,
                       fi_hospital_type = hospital_type_of (row ''category_subtype_of_provider''),
                       fi_ownership = ownership_of (row ''type_of_control'')\<rparr>
                      facility_map))
      else Inr facility_map)"

fun facility_loop :: "facility_map \<Rightarrow> xl_row list \<Rightarrow> py_error + facility_map" where
  "facility_loop facility_map [] = Inr facility_map"
| "facility_loop facility_map (row # rows) =
     (case facility_step facility_map row of
        Inl e \<Rightarrow> Inl e
      | Inr facility_map' \<Rightarrow> facility_loop facility_map' rows)"

text \<open>
  The argument is what \<open>pd.read_excel(filepath, ...)\<close> does: it raises or it returns the
  table. The \<open>try\<close> covers the read and the loop, and the handler returns \<open>{}\<close>.
\<close>

definition load_facility_data :: "py_error + xl_row list \<Rightarrow> facility_map" where
  "load_facility_data read_excel =
     (case read_excel of
        Inl e \<Rightarrow> []
      | Inr df \<Rightarrow> (case facility_loop [] df of Inl e \<Rightarrow> [] | Inr facility_map \<Rightarrow> facility_map))"

subsection \<open>\<open>load_procedure_names\<close>\<close>

text \<open>The guard of line 157.\<close>

definition has_description :: "xl_row \<Rightarrow> bool" where
  "has_description row =
     (get_str row ''HCPCS Code'' \<noteq> [] \<and> get_str row ''Short Descriptor'' \<noteq> []
      \<and> get_str row ''HCPCS Code'' \<noteq> ''nan'' \<and> get_str row ''Short Descriptor'' \<noteq> ''nan'')"

definition procedure_step :: "(string \<times> string) list \<Rightarrow> xl_row \<Rightarrow> (string \<times> string) list" where
  "procedure_step procedure_map row =
     (let code = get_str row ''HCPCS Code''; description = get_str row ''Short Descriptor''
      in if code \<noteq> [] \<and> description \<noteq> [] \<and> code \<noteq> ''nan'' \<and> description \<noteq> ''nan''
         then AList.update code description procedure_map
         else procedure_map)"

definition load_procedure_names :: "py_error + xl_row list \<Rightarrow> (string \<times> string) list" where
  "load_procedure_names read_excel =
     (case read_excel of Inl e \<Rightarrow> [] | Inr df \<Rightarrow> foldl procedure_step [] df)"

subsection \<open>\<open>load_service_categories\<close>\<close>

text \<open>The three variables the loop updates: the two maps and the set of categories.\<close>

type_synonym service_state = "(string \<times> string) list \<times> (string \<times> string) list \<times> string set"

definition service_step :: "service_state \<Rightarrow> xl_row \<Rightarrow> service_state" where
  "service_step st row =
     (case st of (category_map, shoppable_map, categories_set) \<Rightarrow>
        (let code = get_str row ''HCPCS Code'';
             category = get_str row ''Service Category'';
             shoppable = py_upper (get_str row ''CMS Shoppable'')
         in if code \<noteq> [] \<and> code \<noteq> ''nan''
            then (if category \<noteq> [] \<and> category \<noteq> ''nan''
                    then AList.update code category category_map else category_map,
                  if shoppable \<noteq> [] \<and> shoppable \<noteq> ''NAN''
                    then AList.update code shoppable shoppable_map else shoppable_map,
                  if category \<noteq> [] \<and> category \<noteq> ''nan''
                    then insert category categories_set else categories_set)
            else st))"

definition load_service_categories ::
  "py_error + xl_row list \<Rightarrow> (string \<times> string) list \<times> (string \<times> string) list \<times> string list" where
  "load_service_categories read_excel =
     (case read_excel of
        Inl e \<Rightarrow> ([], [], [])
      | Inr df \<Rightarrow>
          (case foldl service_step ([], [], {}) df of
             (category_map, shoppable_map, categories_set) \<Rightarrow>
               (category_map, shoppable_map, sorted_list_of_set categories_set)))"

section \<open>The merge: \<open>process_and_export_data\<close>\<close>

record summary_rec =
  total_volume :: int
  sum_total_charges :: amount
  sum_total_cost :: amount
  sum_total_paid :: amount
  avg_charge_per_case :: amount

record unified_hospital =
  name :: string
  provnum :: string
  city :: string
  state :: string
  zip_code :: string
  beds_total :: int
  hospital_type :: string
  ownership :: string
  procedures :: "(string \<times> procedure_stat) list"
  summary :: summary_rec

record output_data =
  hospitals :: "(string \<times> unified_hospital) list"
  procedure_codes :: "string set"
  procedure_names :: "(string \<times> string) list"
  service_categories :: "string list"
  service_category_map :: "(string \<times> string) list"
  shoppable_map :: "(string \<times> string) list"

text \<open>
  The \<open>summary\<close> dictionary of lines 249 to 258. Its division is the one expression of
  the loop of line 236 that can raise.
\<close>

definition summary_of :: "hospital_acc \<Rightarrow> py_error + summary_rec" where
  "summary_of data =
     (case average (acc_total_charges data) (acc_total_volume data) of
        Inl e \<Rightarrow> Inl e
      | Inr q \<Rightarrow>
          Inr \<lparr>total_volume = acc_total_volume data,
               sum_total_charges = round_amount (acc_total_charges data),
               sum_total_cost = round_amount (acc_total_cost data),
               sum_total_paid = round_amount (acc_total_paid data),
               avg_charge_per_case = round_amount q\<rparr>)"

text \<open>
  The dictionary of lines 239 to 259, given its summary.
  \<open>facility_data.get(provnum, {})\<close> is an entry of the loader, with all seven keys, or
  the empty dictionary, where every \<open>.get\<close> falls back to its default.
\<close>

definition unified_record ::
  "(string \<times> facility_info) list \<Rightarrow> string \<Rightarrow> hospital_acc \<Rightarrow> summary_rec \<Rightarrow> unified_hospital" where
  "unified_record facility_data pn data s =
     (let facility_info = map_of facility_data pn in
      \<lparr>name = (case facility_info of None \<Rightarrow> ''Hospital '' @ pn | Some fi \<Rightarrow> fi_name fi),
       provnum = pn,
       city = (case facility_info of None \<Rightarrow> [] | Some fi \<Rightarrow> fi_city fi),
       state = (case facility_info of None \<Rightarrow> [] | Some fi \<Rightarrow> fi_state fi),
       zip_code = (case facility_info of None \<Rightarrow> [] | Some fi \<Rightarrow> fi_zip_code fi),
       beds_total = (case facility_info of None \<Rightarrow> 0 | Some fi \<Rightarrow> fi_beds_total fi),
       hospital_type = (case facility_info of None \<Rightarrow> [] | Some fi \<Rightarrow> fi_hospital_type fi),
       ownership = (case facility_info of None \<Rightarrow> [] | Some fi \<Rightarrow> fi_ownership fi),
       procedures = acc_procedures data,
       summary = s\<rparr>)"

text \<open>The loop of line 236 over \<open>hospitals_data.items()\<close>, filling \<open>output_data['hospitals']\<close>.\<close>

fun format_loop ::
  "(string \<times> facility_info) list \<Rightarrow> (string \<times> unified_hospital) list \<Rightarrow> hospitals_data
     \<Rightarrow> py_error + (string \<times> unified_hospital) list" where
  "format_loop facility_data out [] = Inr out"
| "format_loop facility_data out ((pn, data) # rest) =
     (case summary_of data of
        Inl e \<Rightarrow> Inl e
      | Inr s \<Rightarrow>
          format_loop facility_data
            (AList.update pn (unified_record facility_data pn data s) out) rest)"

definition format_hospitals ::
  "(string \<times> facility_info) list \<Rightarrow> hospitals_data \<Rightarrow> py_error + (string \<times> unified_hospital) list" where
  "format_hospitals facility_data hospitals_data = format_loop facility_data [] hospitals_data"

text \<open>
  The whole run, up to the dictionary handed to \<open>json.dump\<close>. The arguments are the rows
  of the pricing extract and what each \<open>pd.read_excel\<close> call does.
\<close>

definition process_and_export_data ::
  "csv_row list \<Rightarrow> py_error + xl_row list \<Rightarrow> py_error + xl_row list \<Rightarrow> py_error + xl_row list
     \<Rightarrow> py_error + output_data" where
  "process_and_export_data price_rows facility_xl procedure_xl service_xl =
     (case load_hospital_price_data price_rows of
        Inl e \<Rightarrow> Inl e
      | Inr hospitals_data \<Rightarrow>
          (let facility_data = load_facility_data facility_xl;
               names = load_procedure_names procedure_xl
           in case load_service_categories service_xl of
                (category_map, shoppable, categories) \<Rightarrow>
                  (case format_hospitals facility_data hospitals_data of
                     Inl e \<Rightarrow> Inl e
                   | Inr hs \<Rightarrow>
                       Inr \<lparr>hospitals = hs,
                            procedure_codes =
                              set (concat (map (\<lambda>(pn, data). map fst (acc_procedures data))
                                             hospitals_data)),
                            procedure_names = names,
                            service_categories = categories,
                            service_category_map = category_map,
                            shoppable_map = shoppable\<rparr>)))"

section \<open>The chunk partitioner: \<open>split_data.py\<close>\<close>

definition chunk_size :: nat where
  "chunk_size = 1000"

text \<open>\<open>range(start, stop, step)\<close> for a positive step.\<close>

function py_range :: "nat \<Rightarrow> nat \<Rightarrow> nat \<Rightarrow> nat list" where
  "py_range i n step = (if i < n \<and> 0 < step then i # py_range (i + step) n step else [])"
  by pat_completeness auto
termination
  by (relation "measure (\<lambda>(i, n, step). n - i)") auto

declare py_range.simps [simp del]

text \<open>\<open>xs[i:j]\<close> for indices that are not negative.\<close>

definition py_slice :: "'a list \<Rightarrow> nat \<Rightarrow> nat \<Rightarrow> 'a list" where
  "py_slice xs i j = take (j - i) (drop i xs)"

text \<open>\<open>dict(pairs)\<close>\<close>

definition py_dict :: "('k \<times> 'v) list \<Rightarrow> ('k \<times> 'v) list" where
  "py_dict kvs = foldl (\<lambda>d (k, v). AList.update k v d) [] kvs"

text \<open>The format \<open>{n:03d}\<close>: decimal, padded with zeros to at least three digits.\<close>

definition format_03d :: "nat \<Rightarrow> string" where
  "format_03d n = replicate (3 - length (show_nat n)) (CHR ''0'') @ show_nat n"

definition chunk_filename :: "nat \<Rightarrow> string" where
  "chunk_filename chunk_num = ''hospitals_'' @ format_03d chunk_num @ ''.json''"

text \<open>
  One pass of the loop of lines 38 to 53: the name of the file written and the
  dictionary dumped into it.
\<close>

definition write_chunk :: "('k \<times> 'v) list \<Rightarrow> nat \<Rightarrow> string \<times> ('k \<times> 'v) list" where
  "write_chunk hospital_items i =
     (let chunk_num = i div chunk_size;
          chunk = py_dict (py_slice hospital_items i (i + chunk_size))
      in (chunk_filename chunk_num, chunk))"

text \<open>The chunk files, in the order the loop writes them.\<close>

definition chunk_files :: "('k \<times> 'v) list \<Rightarrow> (string \<times> ('k \<times> 'v) list) list" where
  "chunk_files hospitals_dict =
     map (write_chunk hospitals_dict) (py_range 0 (length hospitals_dict) chunk_size)"

text \<open>
  An entry of \<open>chunks_info\<close>; \<open>size_mb\<close>, the size of the serialised file, is left out.
\<close>

record chunk_info =
  ci_file :: string
  ci_hospitals :: nat

record chunk_index =
  total_hospitals :: nat
  index_chunk_size :: nat
  chunks :: "chunk_info list"

definition make_index :: "('k \<times> 'v) list \<Rightarrow> chunk_index" where
  "make_index hospitals_dict =
     \<lparr>total_hospitals = length hospitals_dict,
      index_chunk_size = chunk_size,
      chunks = map (\<lambda>(filename, chunk). \<lparr>ci_file = filename, ci_hospitals = length chunk\<rparr>)
                 (chunk_files hospitals_dict)\<rparr>"

text \<open>The facility keys of the chunk files, read in the order of the file names.\<close>

definition keys_in_filename_order :: "(string \<times> ('k \<times> 'v) list) list \<Rightarrow> 'k list" where
  "keys_in_filename_order files = concat (map (\<lambda>(filename, chunk). map fst chunk) (sort_key fst files))"


section \<open>Properties of the float arithmetic\<close>

subsection \<open>Bit length and binary exponent\<close>

lemma bit_length_bounds:
  "0 < n \<Longrightarrow> 0 < bit_length n \<and> 2 ^ nat (bit_length n - 1) \<le> n \<and> n < 2 ^ nat (bit_length n)"
proof (induction n rule: bit_length.induct)
  case (1 n)
  show ?case
  proof (cases "n = 1")
    case True
    have "bit_length 1 = 1"
      by (simp add: bit_length.simps)
    then show ?thesis
      using True by simp
  next
    case False
    with 1(2) have pos: "0 < n div 2"
      by simp
    define b where "b = bit_length (n div 2)"
    have IH: "0 < b \<and> 2 ^ nat (b - 1) \<le> n div 2 \<and> n div 2 < 2 ^ nat b"
      unfolding b_def using 1(1) 1(2) pos by simp
    have bl: "bit_length n = 1 + b"
      using 1(2) by (subst bit_length.simps) (simp add: b_def)
    have e2: "nat (1 + b) = Suc (nat b)"
      using IH by linarith
    have "2 * (n div 2) \<le> n" and "n < 2 * (n div 2 + 1)"
      by presburger+
    moreover have "n div 2 + 1 \<le> 2 ^ nat b"
      using IH by simp
    ultimately have "2 * 2 ^ nat (b - 1) \<le> n" and "n < 2 * 2 ^ nat b"
      using IH by linarith+
    moreover have "nat b = Suc (nat (b - 1))"
      using IH by linarith
    then have "(2::int) ^ nat b = 2 * 2 ^ nat (b - 1)"
      by (simp only: power_Suc)
    ultimately show ?thesis
      using IH by (simp add: bl e2)
  qed
qed

lemma bit_length_powi:
  assumes "0 < n"
  shows "2 powi (bit_length n - 1) \<le> (of_int n :: rat)" and "(of_int n :: rat) < 2 powi bit_length n"
proof -
  from bit_length_bounds[OF assms]
  have b: "0 < bit_length n" and l: "2 ^ nat (bit_length n - 1) \<le> n" and u: "n < 2 ^ nat (bit_length n)"
    by simp_all
  have "(of_int (2 ^ nat (bit_length n - 1)) :: rat) \<le> of_int n"
    using l by (simp only: of_int_le_iff)
  then show "2 powi (bit_length n - 1) \<le> (of_int n :: rat)"
    using b by (simp add: power_int_nonneg_exp)
  have "(of_int n :: rat) < of_int (2 ^ nat (bit_length n))"
    using u by (simp only: of_int_less_iff)
  then show "(of_int n :: rat) < 2 powi bit_length n"
    using b by (simp add: power_int_nonneg_exp)
qed

lemma floor_log2_bounds:
  assumes "0 < q"
  shows "2 powi floor_log2 q \<le> q \<and> q < 2 powi (floor_log2 q + 1)"
proof -
  obtain n d where nd: "quotient_of q = (n, d)"
    by (cases "quotient_of q") auto
  have d: "0 < d" and q: "q = of_int n / of_int d"
    using nd by (simp_all add: quotient_of_denom_pos quotient_of_div)
  then have n: "0 < n"
    using assms by (simp add: zero_less_divide_iff)
  define k where "k = bit_length n - bit_length d"
  have dq: "0 < (of_int d :: rat)"
    using d by simp
  have "q * of_int d < (2::rat) powi bit_length n"
    using bit_length_powi(2)[OF n] d by (simp add: q)
  also have "\<dots> = 2 powi (k + 1) * 2 powi (bit_length d - 1)"
    by (simp add: k_def flip: power_int_add)
  also have "\<dots> \<le> 2 powi (k + 1) * of_int d"
    using bit_length_powi(1)[OF d] by (intro mult_left_mono) simp_all
  finally have up: "q < 2 powi (k + 1)"
    using dq by simp
  have "2 powi (k - 1) * of_int d < (2::rat) powi (k - 1) * 2 powi bit_length d"
    using bit_length_powi(2)[OF d] by (intro mult_strict_left_mono) simp_all
  also have "\<dots> = 2 powi (bit_length n - 1)"
    by (simp add: k_def flip: power_int_add)
  also have "\<dots> \<le> q * of_int d"
    using bit_length_powi(1)[OF n] d by (simp add: q)
  finally have low: "2 powi (k - 1) < q"
    using dq by simp
  have fl: "floor_log2 q = (if 2 powi k \<le> q then k else k - 1)"
    by (simp add: floor_log2_def nd k_def Let_def)
  show ?thesis
    using up low by (auto simp: fl not_le)
qed

lemma floor_log2_unique:
  assumes "0 < q" and "2 powi k \<le> q" and "q < 2 powi (k + 1)"
  shows "floor_log2 q = k"
proof -
  define j where "j = floor_log2 q"
  have b: "2 powi j \<le> q" "q < 2 powi (j + 1)"
    using floor_log2_bounds[OF assms(1)] by (simp_all add: j_def)
  have "(2::rat) powi j < 2 powi (k + 1)"
    using b(1) assms(3) by (rule le_less_trans)
  then have "j < k + 1"
    using power_int_increasing[of "k + 1" j "2::rat"] by (cases "j < k + 1") (auto simp: not_less)
  moreover have "(2::rat) powi k < 2 powi (j + 1)"
    using assms(2) b(2) by (rule le_less_trans)
  then have "k < j + 1"
    using power_int_increasing[of "j + 1" k "2::rat"] by (cases "k < j + 1") (auto simp: not_less)
  ultimately show ?thesis
    by (simp add: j_def)
qed

subsection \<open>Rounding to the nearest integer and to the nearest float\<close>

lemma round_half_even_near:
  assumes "\<bar>y - of_int m\<bar> < 1 / 2"
  shows "round_half_even y = m"
proof (cases "of_int m \<le> y")
  case True
  then have "\<lfloor>y\<rfloor> = m"
    using assms by (intro floor_unique) auto
  then show ?thesis
    using assms True by (simp add: round_half_even_def Let_def)
next
  case False
  then have "\<lfloor>y\<rfloor> = m - 1"
    using assms by (intro floor_unique) auto
  then show ?thesis
    using assms False by (simp add: round_half_even_def Let_def)
qed

lemma round_half_even_tie:
  assumes "y = of_int m + 1 / 2"
  shows "round_half_even y = (if even m then m else m + 1)"
proof -
  have "\<lfloor>y\<rfloor> = m"
    using assms by (intro floor_unique) auto
  then show ?thesis
    using assms by (simp add: round_half_even_def Let_def)
qed

lemma round_half_even_of_int: "round_half_even (of_int m) = m"
  by (rule round_half_even_near) simp

lemma round_half_even_ge:
  assumes "of_int m \<le> y"
  shows "m \<le> round_half_even y"
proof -
  have "m \<le> \<lfloor>y\<rfloor>"
    using assms by (simp add: le_floor_iff)
  then show ?thesis
    by (simp add: round_half_even_def Let_def)
qed

lemma round_half_even_le:
  assumes "y \<le> of_int m"
  shows "round_half_even y \<le> m"
proof (cases "y = of_int m")
  case True
  then show ?thesis
    by (simp add: round_half_even_of_int)
next
  case False
  then have "y < of_int m"
    using assms by simp
  then have "\<lfloor>y\<rfloor> < m"
    by (simp add: floor_less_iff)
  then show ?thesis
    by (simp add: round_half_even_def Let_def)
qed

lemma to_double_pos:
  assumes "0 < q" and "2 powi k \<le> q" and "q < 2 powi (k + 1)"
    and "e = max (k - 52) (- 1074)"
    and "round_half_even (q / 2 powi e) = m"
    and "of_int m * 2 powi e < (2::rat) powi 1024"
  shows "to_double q = Fin (of_int m * 2 powi e)"
proof -
  have "floor_log2 q = k"
    using assms(1-3) by (rule floor_log2_unique)
  then show ?thesis
    using assms by (simp add: to_double_def Let_def not_le)
qed

lemma to_double_minus:
  "to_double (- q) = (case to_double q of Fin r \<Rightarrow> Fin (- r) | PosInf \<Rightarrow> NegInf
                      | NegInf \<Rightarrow> PosInf | NaN \<Rightarrow> NaN)"
  by (simp add: to_double_def Let_def)

lemma to_double_not_negative: "0 \<le> q \<Longrightarrow> \<not> fnegative (to_double q)"
proof -
  assume q: "0 \<le> q"
  have "0 \<le> round_half_even (\<bar>q\<bar> / 2 powi e)" for e
    by (rule round_half_even_ge) simp
  then have "0 \<le> rat_of_int (round_half_even (\<bar>q\<bar> / 2 powi e)) * 2 powi e" for e
    by (intro mult_nonneg_nonneg) simp_all
  then show ?thesis
    using q by (simp add: to_double_def Let_def not_less)
qed

lemma to_double_zero: "to_double 0 = Fin 0"
  by (simp add: to_double_def)

subsection \<open>The range of a rounded value\<close>

lemma powi_two_add: "(2::rat) powi a * 2 powi b = 2 powi (a + b)"
  by (simp add: power_int_add)

lemma powi_two_le: "(2::rat) powi a < 2 powi b \<Longrightarrow> a < b"
  using power_int_increasing[of b a "2::rat"] by (cases "a < b") (auto simp: not_less)

lemma to_double_normal:
  assumes "0 < q" and lo: "2 powi k \<le> q" and hi: "q < 2 powi (k + 1)" and k: "- 1022 \<le> k"
  shows "to_double q = PosInf \<or> (\<exists>r. to_double q = Fin r \<and> 2 powi k \<le> r \<and> r \<le> 2 powi (k + 1))"
    and "k \<le> 1022 \<Longrightarrow> \<exists>r. to_double q = Fin r \<and> 2 powi k \<le> r \<and> r \<le> 2 powi (k + 1)"
proof -
  define e where "e = k - 52"
  define m where "m = round_half_even (q / 2 powi e)"
  define r where "r = rat_of_int m * 2 powi e"
  have fl: "floor_log2 q = k"
    using assms(1) lo hi by (rule floor_log2_unique)
  have e: "max (k - 52) (- 1074) = e"
    using k by (simp add: e_def)
  have pe: "0 < (2::rat) powi e"
    by simp
  have "rat_of_int (2 ^ 52) * 2 powi e = 2 powi k"
    using powi_two_add[of 52 e] by (simp add: e_def)
  then have "rat_of_int (2 ^ 52) \<le> q / 2 powi e"
    using lo pe by (simp add: pos_le_divide_eq)
  then have m1: "2 ^ 52 \<le> m"
    unfolding m_def by (rule round_half_even_ge)
  have "rat_of_int (2 ^ 53) * 2 powi e = 2 powi (k + 1)"
    using powi_two_add[of 53 e] by (simp add: e_def add.commute)
  then have "q / 2 powi e \<le> rat_of_int (2 ^ 53)"
    using hi pe by (simp add: pos_divide_le_eq)
  then have m2: "m \<le> 2 ^ 53"
    unfolding m_def by (rule round_half_even_le)
  have "rat_of_int (2 ^ 52) * 2 powi e \<le> r"
    unfolding r_def using m1 pe by (intro mult_right_mono) (simp_all only: of_int_le_iff less_imp_le)
  then have r1: "2 powi k \<le> r"
    using \<open>rat_of_int (2 ^ 52) * 2 powi e = 2 powi k\<close> by simp
  have "r \<le> rat_of_int (2 ^ 53) * 2 powi e"
    unfolding r_def using m2 pe by (intro mult_right_mono) (simp_all only: of_int_le_iff less_imp_le)
  then have r2: "r \<le> 2 powi (k + 1)"
    using \<open>rat_of_int (2 ^ 53) * 2 powi e = 2 powi (k + 1)\<close> by simp
  have td: "to_double q = (if 2 powi 1024 \<le> r then PosInf else Fin r)"
    using assms(1) by (simp add: to_double_def Let_def fl e r_def m_def)
  show "to_double q = PosInf \<or> (\<exists>r. to_double q = Fin r \<and> 2 powi k \<le> r \<and> r \<le> 2 powi (k + 1))"
    using td r1 r2 by auto
  show "\<exists>r. to_double q = Fin r \<and> 2 powi k \<le> r \<and> r \<le> 2 powi (k + 1)" if "k \<le> 1022"
  proof -
    have "(2::rat) powi (k + 1) \<le> 2 powi 1023"
      using that by (intro power_int_increasing) simp_all
    also have "\<dots> < 2 powi 1024"
      by (intro power_int_strict_increasing) simp_all
    finally have "r < 2 powi 1024"
      using r2 by simp
    then show ?thesis
      using td r1 r2 by (auto simp: not_le)
  qed
qed

text \<open>\<open>float(n)\<close> of a positive integer is at least \<open>1\<close>, so the division never divides by zero.\<close>

lemma float_of_int_pos:
  assumes "0 < n" and "float_of_int n = Inr b"
  shows "1 \<le> b"
proof -
  define k where "k = bit_length n - 1"
  have k0: "0 \<le> k"
    using bit_length_bounds[OF assms(1)] by (simp add: k_def)
  have lo: "(2::rat) powi k \<le> of_int n" and hi: "rat_of_int n < 2 powi (k + 1)"
    using bit_length_powi[OF assms(1)] by (simp_all add: k_def)
  have q: "0 < rat_of_int n"
    using assms(1) by simp
  have one: "(1::rat) \<le> 2 powi k"
    using k0 by (intro one_le_power_int) simp_all
  have "to_double (of_int n) = Fin b"
    using assms(2) by (auto simp: float_of_int_def split: pyfloat.splits)
  then have "2 powi k \<le> b"
    using to_double_normal(1)[OF q lo hi] k0 by auto
  with one show ?thesis
    by (rule order_trans)
qed

text \<open>\<open>float(n)\<close> raises only for an integer of \<open>2 ^ 1023\<close> or more.\<close>

lemma float_of_int_overflow:
  assumes "0 < n" and "float_of_int n = Inl e"
  shows "e = OverflowError \<and> 2 ^ 1023 \<le> n"
proof -
  have e: "e = OverflowError"
    using assms(2) by (auto simp: float_of_int_def split: pyfloat.splits)
  have "2 ^ 1023 \<le> n"
  proof (rule ccontr)
    assume "\<not> 2 ^ 1023 \<le> n"
    then have n: "n < 2 ^ 1023"
      by simp
    define k where "k = bit_length n - 1"
    have k0: "0 \<le> k"
      using bit_length_bounds[OF assms(1)] by (simp add: k_def)
    have lo: "(2::rat) powi k \<le> of_int n" and hi: "rat_of_int n < 2 powi (k + 1)"
      using bit_length_powi[OF assms(1)] by (simp_all add: k_def)
    have "rat_of_int n < rat_of_int (2 ^ 1023)"
      using n by (simp only: of_int_less_iff)
    then have "rat_of_int n < 2 powi 1023"
      by simp
    with lo have "(2::rat) powi k < 2 powi 1023"
      by (rule le_less_trans)
    then have "k \<le> 1022"
      using powi_two_le[of k 1023] by simp
    moreover have q: "0 < rat_of_int n"
      using assms(1) by simp
    ultimately obtain r where "to_double (of_int n) = Fin r"
      using to_double_normal(2)[OF q lo hi] k0 by auto
    then show False
      using assms(2) by (simp add: float_of_int_def)
  qed
  with e show ?thesis
    by simp
qed

text \<open>
  A number \<open>n / 2 ^ j\<close> with \<open>n\<close> below \<open>2 ^ 53\<close> in absolute value is a float, so
  rounding leaves it as it is.
\<close>

lemma to_double_dyadic:
  assumes "\<bar>n\<bar> < 2 ^ 53" and "j \<le> 1074"
  shows "to_double (of_int n / 2 ^ j) = Fin (of_int n / 2 ^ j)"
proof -
  have pj: "(2::rat) powi (- int j) = inverse (2 ^ j)"
    by (simp add: power_int_minus)
  have pos: "to_double (of_int n / 2 ^ j) = Fin (of_int n / 2 ^ j)" if n: "0 < n" "n < 2 ^ 53" for n :: int
  proof -
    define q where "q = rat_of_int n / 2 ^ j"
    have q: "q = of_int n * 2 powi (- int j)"
      by (simp add: q_def pj divide_inverse)
    define k where "k = bit_length n - 1 - int j"
    have lo0: "(2::rat) powi (bit_length n - 1) \<le> of_int n" and hi0: "rat_of_int n < 2 powi bit_length n"
      using bit_length_powi[OF n(1)] by simp_all
    have "(2::rat) powi (bit_length n - 1) * 2 powi (- int j) \<le> of_int n * 2 powi (- int j)"
      using lo0 by (intro mult_right_mono) simp_all
    then have lo: "2 powi k \<le> q"
      by (simp add: q k_def powi_two_add)
    have "rat_of_int n * 2 powi (- int j) < 2 powi bit_length n * 2 powi (- int j)"
      using hi0 by (intro mult_strict_right_mono) simp_all
    then have hi: "q < 2 powi (k + 1)"
      by (simp add: q k_def powi_two_add)
    have qpos: "0 < q"
      using n(1) by (simp add: q_def)
    have "rat_of_int n < 2 powi 53"
      using n(2) by (simp flip: of_int_less_iff)
    with lo0 have "(2::rat) powi (bit_length n - 1) < 2 powi 53"
      by (rule le_less_trans)
    then have b53: "bit_length n - 1 < 53"
      by (rule powi_two_le)
    define e where "e = max (k - 52) (- 1074)"
    have ej: "e \<le> - int j"
      using b53 assms(2) by (simp add: e_def k_def)
    define m where "m = n * 2 ^ nat (- int j - e)"
    have pd: "(2::rat) powi (- int j - e) = 2 ^ nat (- int j - e)"
      using ej by (simp add: power_int_nonneg_exp)
    have "2 powi (- int j) = (2::rat) powi (- int j - e) * 2 powi e"
      by (simp add: powi_two_add)
    then have split: "2 powi (- int j) = rat_of_int (2 ^ nat (- int j - e)) * 2 powi e"
      by (simp add: pd)
    have "q / 2 powi e = of_int m"
      by (simp add: q split m_def)
    then have r: "round_half_even (q / 2 powi e) = m"
      by (simp add: round_half_even_of_int)
    have v: "rat_of_int m * 2 powi e = q"
      by (simp add: q split m_def)
    have "(2::rat) powi (- int j) \<le> 2 powi 0"
      by (intro power_int_increasing) simp_all
    then have "q \<le> rat_of_int n"
      using n(1) by (simp add: q mult_left_le)
    also have "\<dots> < rat_of_int (2 ^ 53)"
      using n(2) by (simp only: of_int_less_iff)
    also have "\<dots> < 2 powi 1024"
      by simp
    finally have "rat_of_int m * 2 powi e < 2 powi 1024"
      by (simp only: v)
    from to_double_pos[OF qpos lo hi e_def r this] show ?thesis
      by (simp only: v q_def)
  qed
  consider "n = 0" | "0 < n" | "n < 0"
    by linarith
  then show ?thesis
  proof cases
    case 1
    then show ?thesis
      by (simp add: to_double_zero)
  next
    case 2
    then show ?thesis
      using assms by (intro pos) simp_all
  next
    case 3
    then have "to_double (of_int (- n) / 2 ^ j) = Fin (of_int (- n) / 2 ^ j)"
      using assms by (intro pos) simp_all
    then show ?thesis
      using to_double_minus[of "of_int (- n) / 2 ^ j"] by simp
  qed
qed

lemma to_double_int: "\<bar>n\<bar> < 2 ^ 53 \<Longrightarrow> to_double (of_int n) = Fin (of_int n)"
  using to_double_dyadic[of n 0] by simp

lemma float_of_int_small: "\<bar>n\<bar> < 2 ^ 53 \<Longrightarrow> float_of_int n = Inr (of_int n)"
  by (simp add: float_of_int_def to_double_int)

subsection \<open>Signs and exceptions of the division\<close>

lemma round2_not_negative: "\<not> fnegative x \<Longrightarrow> \<not> fnegative (round2 x)"
proof (cases x)
  case (Fin a)
  assume "\<not> fnegative x"
  then have "rat_of_int 0 \<le> a * 100"
    using Fin by simp
  then have "0 \<le> round_half_even (a * 100)"
    by (rule round_half_even_ge)
  then have "0 \<le> rat_of_int (round_half_even (a * 100)) / 100"
    by simp
  then show ?thesis
    using Fin by (simp add: to_double_not_negative)
qed simp_all

lemma fdiv_not_negative: "\<not> fnegative x \<Longrightarrow> 0 \<le> b \<Longrightarrow> \<not> fnegative (fdiv x b)"
  by (cases x) (simp_all add: not_less to_double_not_negative)

lemma round_amount_not_negative: "\<not> amount_negative x \<Longrightarrow> \<not> amount_negative (round_amount x)"
  by (cases x) (simp_all add: round2_not_negative)

lemma true_div_not_negative:
  assumes "\<not> amount_negative x" and "0 < n" and "true_div x n = Inr y"
  shows "\<not> amount_negative y"
proof (cases x)
  case Int0
  then show ?thesis
    using assms(3) by auto
next
  case (Flt f)
  then obtain b where b: "float_of_int n = Inr b" and y: "y = Flt (fdiv f b)"
    using assms(3) by (auto split: sum.splits)
  have "0 \<le> b"
    using float_of_int_pos[OF assms(2) b] by simp
  then show ?thesis
    using assms(1) Flt by (simp add: y fdiv_not_negative)
qed

lemma true_div_error:
  assumes "0 < n" and "true_div x n = Inl e"
  shows "e = OverflowError \<and> 2 ^ 1023 \<le> n"
proof (cases x)
  case Int0
  then show ?thesis
    using assms(2) by simp
next
  case (Flt f)
  then have "float_of_int n = Inl e"
    using assms(2) by (auto split: sum.splits)
  then show ?thesis
    using assms(1) by (intro float_of_int_overflow)
qed

lemma average_error: "average x v = Inl e \<Longrightarrow> e = OverflowError \<and> 2 ^ 1023 \<le> v"
  by (auto simp: average_def split: if_splits dest: true_div_error)

lemma average_returns: "v < 2 ^ 1023 \<Longrightarrow> \<exists>a. average x v = Inr a"
  using average_error[of x v] by (cases "average x v") auto

subsection \<open>Values of the examples\<close>

lemma to_double_one: "to_double 1 = Fin 1"
  using to_double_int[of 1] by simp

lemma to_double_numeral: "numeral w < (2::int) ^ 53 \<Longrightarrow> to_double (numeral w) = Fin (numeral w)"
  using to_double_int[of "numeral w"] by simp

lemma to_double_minus_one: "to_double (- 1) = Fin (- 1)"
  using to_double_int[of "- 1"] by simp

lemma to_double_eighth: "to_double (1 / 8) = Fin (1 / 8)" "to_double (- (1 / 8)) = Fin (- (1 / 8))"
  using to_double_dyadic[of 1 3] to_double_dyadic[of "- 1" 3] by simp_all

lemma to_double_quarters:
  "to_double (1 / 4) = Fin (1 / 4)" "to_double (3 / 4) = Fin (3 / 4)"
  using to_double_dyadic[of 1 2] to_double_dyadic[of 3 2] by simp_all

text \<open>The float written \<open>0.12\<close>.\<close>

lemma to_double_twelve_hundredths:
  "to_double (3 / 25) = Fin (1080863910568919 / 9007199254740992)"
proof -
  have r: "round_half_even (216172782113783808 / 25) = 8646911284551352"
    by (rule round_half_even_near) simp
  have "to_double (3 / 25) = Fin (rat_of_int 8646911284551352 * 2 powi (- 56))"
    by (rule to_double_pos[where k = "- 4"]) (simp_all add: r)
  then show ?thesis
    by simp
qed

lemma round2_of_int:
  assumes "\<bar>n\<bar> < 2 ^ 53"
  shows "round2 (Fin (of_int n)) = Fin (of_int n)"
proof -
  have "round_half_even (rat_of_int n * 100) = n * 100"
    using round_half_even_of_int[of "n * 100"] by simp
  then show ?thesis
    using assms by (simp add: to_double_int)
qed

lemma round2_one: "round2 (Fin 1) = Fin 1" "round2 (Fin (- 1)) = Fin (- 1)" "round2 (Fin 0) = Fin 0"
  using round2_of_int[of 1] round2_of_int[of "- 1"] round2_of_int[of 0] by simp_all

lemma round2_eighth:
  "round2 (Fin (1 / 8)) = Fin (1080863910568919 / 9007199254740992)"
  "round2 (Fin (- (1 / 8))) = Fin (- (1080863910568919 / 9007199254740992))"
proof -
  have "round_half_even (25 / 2) = 12"
    using round_half_even_tie[of "25 / 2" 12] by simp
  then show "round2 (Fin (1 / 8)) = Fin (1080863910568919 / 9007199254740992)"
    by (simp add: to_double_twelve_hundredths)
  have "round_half_even (- (25 / 2)) = - 12"
    using round_half_even_tie[of "- (25 / 2)" "- 13"] by simp
  then show "round2 (Fin (- (1 / 8))) = Fin (- (1080863910568919 / 9007199254740992))"
    using to_double_minus[of "3 / 25"] by (simp add: to_double_twelve_hundredths)
qed

lemma py_int_examples:
  "py_int ''8'' = Some 8" "py_int ''4'' = Some 4" "py_int ''3'' = Some 3"
  by code_simp+

lemma py_float_one: "py_float ''1'' = Some (Fin 1)"
proof -
  have "split_sign (number_strip ''1'') = (False, ''1'')" "map to_lower ''1'' = ''1''"
    "py_floatnumber ''1'' = Some 1"
    by code_simp+
  then show ?thesis
    by (simp add: py_float_def to_double_one)
qed

lemma py_float_three: "py_float ''3'' = Some (Fin 3)"
proof -
  have "split_sign (number_strip ''3'') = (False, ''3'')" "map to_lower ''3'' = ''3''"
    "py_floatnumber ''3'' = Some 3"
    by code_simp+
  then show ?thesis
    by (simp add: py_float_def to_double_numeral)
qed

lemma py_float_minus_one: "py_float ''-1'' = Some (Fin (- 1))"
proof -
  have "split_sign (number_strip ''-1'') = (True, ''1'')" "map to_lower ''1'' = ''1''"
    "py_floatnumber ''1'' = Some 1"
    by code_simp+
  then show ?thesis
    by (simp add: py_float_def to_double_minus_one)
qed

lemma py_float_special:
  "py_float ''nan'' = Some NaN" "py_float ''inf'' = Some PosInf"
  "py_float ''-Infinity'' = Some NegInf" "py_float ''12,5'' = None" "py_int ''3.5'' = None"
  by code_simp+

section \<open>Properties of the pricing extractor\<close>

subsection \<open>The loop as a fold over the parsed rows\<close>

lemma load_loop_parse_rows:
  "load_loop hdata rows =
     (case parse_rows rows of Inl e \<Rightarrow> Inl e | Inr ps \<Rightarrow> Inr (foldl accumulate hdata ps))"
  by (induction rows arbitrary: hdata) (auto simp: process_row_def split: sum.splits)

lemma get_acc_accumulate:
  "get_acc (accumulate hdata p) k =
     (if k = p_provnum p then update_acc (get_acc hdata k) p else get_acc hdata k)"
  by (simp add: get_acc_def accumulate_def update_conv')

lemma map_of_accumulate:
  "map_of (accumulate hdata p) k =
     (if k = p_provnum p then Some (update_acc (get_acc hdata k) p) else map_of hdata k)"
  by (simp add: accumulate_def update_conv')

lemma map_of_foldl_accumulate:
  "map_of (foldl accumulate hdata ps) k =
     (if [p\<leftarrow>ps. p_provnum p = k] = [] then map_of hdata k
      else Some (foldl update_acc (get_acc hdata k) [p\<leftarrow>ps. p_provnum p = k]))"
proof (induction ps arbitrary: hdata)
  case Nil
  show ?case by simp
next
  case (Cons p ps)
  show ?case
  proof (cases "p_provnum p = k")
    case True
    then show ?thesis
      by (simp add: Cons.IH map_of_accumulate get_acc_accumulate)
  next
    case False
    then show ?thesis
      by (simp add: Cons.IH map_of_accumulate get_acc_accumulate)
  qed
qed

lemma distinct_foldl_accumulate:
  "distinct (map fst hdata) \<Longrightarrow> distinct (map fst (foldl accumulate hdata ps))"
  by (induction ps arbitrary: hdata) (simp_all add: accumulate_def distinct_update)

lemma volume_foldl_update_acc:
  "acc_total_volume (foldl update_acc h ps) = acc_total_volume h + sum_list (map p_volume ps)"
  by (induction ps arbitrary: h) (simp_all add: update_acc_def)

lemma charges_foldl_update_acc:
  "acc_total_charges (foldl update_acc h ps) =
     foldl amount_add (acc_total_charges h) (map p_total_charges ps)"
  by (induction ps arbitrary: h) (simp_all add: update_acc_def)

lemma cost_foldl_update_acc:
  "acc_total_cost (foldl update_acc h ps) =
     foldl amount_add (acc_total_cost h) (map p_total_cost ps)"
  by (induction ps arbitrary: h) (simp_all add: update_acc_def)

lemma paid_foldl_update_acc:
  "acc_total_paid (foldl update_acc h ps) =
     foldl amount_add (acc_total_paid h) (map p_total_paid ps)"
  by (induction ps arbitrary: h) (simp_all add: update_acc_def)

lemma procedures_foldl_update_acc:
  "acc_procedures (foldl update_acc h ps) =
     foldl (\<lambda>al p. AList.update (p_category p) (procedure_stat_of p) al) (acc_procedures h) ps"
  by (induction ps arbitrary: h) (simp_all add: update_acc_def)

lemma map_of_foldl_update:
  "map_of (foldl (\<lambda>al p. AList.update (f p) (g p) al) al ps) c =
     (if [p\<leftarrow>ps. f p = c] = [] then map_of al c else Some (g (last [p\<leftarrow>ps. f p = c])))"
  by (induction ps arbitrary: al) (auto simp: update_conv')

lemma foldl_update_distinct:
  "distinct (map f ps) \<Longrightarrow> set (map f ps) \<inter> fst ` set al = {} \<Longrightarrow>
   foldl (\<lambda>al p. AList.update (f p) (g p) al) al ps = al @ map (\<lambda>p. (f p, g p)) ps"
proof (induction ps arbitrary: al)
  case Nil
  show ?case by simp
next
  case (Cons p ps)
  have new: "f p \<notin> fst ` set al" using Cons.prems by auto
  have upd: "AList.update (f p) (g p) al = al @ [(f p, g p)]"
    using new by (induction al) auto
  have "set (map f ps) \<inter> fst ` set (al @ [(f p, g p)]) = {}"
    using Cons.prems by auto
  then show ?case using Cons.IH[of "al @ [(f p, g p)]"] Cons.prems upd by simp
qed

lemma parse_row_keys:
  "parse_row row = Inr p \<Longrightarrow> p_provnum p = r_provnum row \<and> p_category p = r_category row"
  by (auto simp: parse_row_def split: sum.splits)

lemma parse_rows_keys:
  "parse_rows rows = Inr ps \<Longrightarrow>
   map (\<lambda>p. (p_provnum p, p_category p)) ps = map (\<lambda>r. (r_provnum r, r_category r)) rows"
proof (induction rows arbitrary: ps)
  case Nil
  then show ?case by simp
next
  case (Cons r rows)
  then show ?case
    by (auto split: sum.splits dest: parse_row_keys)
qed

lemma distinct_categories_of_facility:
  "distinct (map (\<lambda>p. (p_provnum p, p_category p)) ps) \<Longrightarrow>
   distinct (map p_category [p\<leftarrow>ps. p_provnum p = k])"
  by (induction ps) (auto simp: image_iff)

lemma load_parse_rows:
  "load_hospital_price_data rows =
     (case parse_rows rows of Inl e \<Rightarrow> Inl e | Inr ps \<Rightarrow> Inr (foldl accumulate [] ps))"
  by (simp add: load_hospital_price_data_def load_loop_parse_rows)

lemma parse_amount_error: "parse_amount s = Inl e \<Longrightarrow> e = ValueError"
  by (auto simp: parse_amount_def split: if_splits option.splits)

lemma parse_volume_error: "parse_volume s = Inl e \<Longrightarrow> e = ValueError"
  by (auto simp: parse_volume_def split: if_splits option.splits)

lemma parse_row_error: "parse_row row = Inl e \<Longrightarrow> e = ValueError \<or> e = OverflowError"
  by (auto simp: parse_row_def split: sum.splits
      dest: parse_amount_error parse_volume_error average_error)

lemma parse_rows_error: "parse_rows rows = Inl e \<Longrightarrow> e = ValueError \<or> e = OverflowError"
  by (induction rows) (auto split: sum.splits dest: parse_row_error)

lemma parse_rows_member_fails:
  "row \<in> set rows \<Longrightarrow> parse_row row = Inl e \<Longrightarrow> \<exists>e'. parse_rows rows = Inl e'"
  by (induction rows) (auto split: sum.splits)

text \<open>The conversions of a row run before its divisions, so a field they reject is what the
  row raises.\<close>

lemma malformed_row_fails:
  assumes "(r_volume row \<noteq> [] \<and> py_int (r_volume row) = None)
         \<or> (r_TotalCharges row \<noteq> [] \<and> py_float (r_TotalCharges row) = None)
         \<or> (r_TotalCost row \<noteq> [] \<and> py_float (r_TotalCost row) = None)
         \<or> (r_TotalPaid row \<noteq> [] \<and> py_float (r_TotalPaid row) = None)"
  shows "parse_row row = Inl ValueError"
proof -
  have "parse_volume (r_volume row) = Inl ValueError
      \<or> (\<exists>v. parse_volume (r_volume row) = Inr v
            \<and> (parse_amount (r_TotalCharges row) = Inl ValueError
               \<or> (\<exists>tc. parse_amount (r_TotalCharges row) = Inr tc
                     \<and> (parse_amount (r_TotalCost row) = Inl ValueError
                        \<or> (\<exists>tco. parse_amount (r_TotalCost row) = Inr tco
                               \<and> parse_amount (r_TotalPaid row) = Inl ValueError)))))"
    using assms
    by (cases "parse_volume (r_volume row)"; cases "parse_amount (r_TotalCharges row)";
        cases "parse_amount (r_TotalCost row)"; cases "parse_amount (r_TotalPaid row)")
       (auto simp: parse_volume_def parse_amount_def split: if_splits option.splits)
  then show ?thesis
    by (auto simp: parse_row_def)
qed

subsection \<open>The rows of the examples\<close>

lemma average_examples:
  "average (Flt (Fin 1)) 8 = Inr (Flt (Fin (1 / 8)))"
  "average (Flt (Fin (- 1))) 8 = Inr (Flt (Fin (- (1 / 8))))"
  "average (Flt (Fin 1)) 4 = Inr (Flt (Fin (1 / 4)))"
  "average (Flt (Fin 3)) 4 = Inr (Flt (Fin (3 / 4)))"
  "average (Flt NaN) 8 = Inr (Flt NaN)"
  "average Int0 8 = Inr (Flt (Fin 0))"
  "average Int0 4 = Inr (Flt (Fin 0))"
  by (simp_all add: average_def float_of_int_small to_double_eighth to_double_quarters)

lemma parse_example_row:
  "parse_row \<lparr>r_provnum = ''001'', r_category = ''99213'', r_volume = ''8'',
               r_TotalCharges = ''1'', r_TotalCost = [], r_TotalPaid = []\<rparr>
   = Inr \<lparr>p_provnum = ''001'', p_category = ''99213'', p_volume = 8,
          p_total_charges = Flt (Fin 1), p_total_cost = Int0, p_total_paid = Int0,
          p_avg_charge = Flt (Fin (1 / 8)), p_avg_cost = Flt (Fin 0), p_avg_paid = Flt (Fin 0)\<rparr>"
  by (simp add: parse_row_def parse_volume_def parse_amount_def py_int_examples py_float_one
      average_examples)

lemma parse_negative_row:
  "parse_row \<lparr>r_provnum = ''001'', r_category = ''99213'', r_volume = ''8'',
               r_TotalCharges = ''-1'', r_TotalCost = [], r_TotalPaid = []\<rparr>
   = Inr \<lparr>p_provnum = ''001'', p_category = ''99213'', p_volume = 8,
          p_total_charges = Flt (Fin (- 1)), p_total_cost = Int0, p_total_paid = Int0,
          p_avg_charge = Flt (Fin (- (1 / 8))), p_avg_cost = Flt (Fin 0),
          p_avg_paid = Flt (Fin 0)\<rparr>"
  by (simp add: parse_row_def parse_volume_def parse_amount_def py_int_examples
      py_float_minus_one average_examples)

lemma parse_nan_row:
  "parse_row \<lparr>r_provnum = ''001'', r_category = ''99213'', r_volume = ''8'',
               r_TotalCharges = ''nan'', r_TotalCost = [], r_TotalPaid = []\<rparr>
   = Inr \<lparr>p_provnum = ''001'', p_category = ''99213'', p_volume = 8,
          p_total_charges = Flt NaN, p_total_cost = Int0, p_total_paid = Int0,
          p_avg_charge = Flt NaN, p_avg_cost = Flt (Fin 0), p_avg_paid = Flt (Fin 0)\<rparr>"
  by (simp add: parse_row_def parse_volume_def parse_amount_def py_int_examples
      py_float_special average_examples)

lemma example_single_row_load:
  "load_hospital_price_data
     [\<lparr>r_provnum = ''001'', r_category = ''99213'', r_volume = ''8'',
        r_TotalCharges = ''1'', r_TotalCost = [], r_TotalPaid = []\<rparr>]
   = Inr [(''001'',
       \<lparr>acc_procedures =
          [(''99213'',
            \<lparr>volume = 8, total_charges = Flt (Fin 1), total_cost = Int0,
               total_paid = Int0,
               avg_charge = Flt (Fin (1080863910568919 / 9007199254740992)),
               avg_cost = Flt (Fin 0), avg_paid = Flt (Fin 0)\<rparr>)],
          acc_total_volume = 8, acc_total_charges = Flt (Fin 1),
          acc_total_cost = Int0, acc_total_paid = Int0\<rparr>)]"
  by (simp add: load_parse_rows parse_example_row accumulate_def get_acc_def default_acc_def
      update_acc_def procedure_stat_of_def round2_one round2_eighth del: round2.simps(1))

lemma example_negative_row_load:
  "load_hospital_price_data
     [\<lparr>r_provnum = ''001'', r_category = ''99213'', r_volume = ''8'',
        r_TotalCharges = ''-1'', r_TotalCost = [], r_TotalPaid = []\<rparr>]
   = Inr [(''001'',
       \<lparr>acc_procedures =
          [(''99213'',
            \<lparr>volume = 8, total_charges = Flt (Fin (- 1)), total_cost = Int0,
               total_paid = Int0,
               avg_charge = Flt (Fin (- (1080863910568919 / 9007199254740992))),
               avg_cost = Flt (Fin 0), avg_paid = Flt (Fin 0)\<rparr>)],
          acc_total_volume = 8, acc_total_charges = Flt (Fin (- 1)),
          acc_total_cost = Int0, acc_total_paid = Int0\<rparr>)]"
  by (simp add: load_parse_rows parse_negative_row accumulate_def get_acc_def default_acc_def
      update_acc_def procedure_stat_of_def round2_one round2_eighth del: round2.simps(1))

lemma example_nan_row_load:
  "load_hospital_price_data
     [\<lparr>r_provnum = ''001'', r_category = ''99213'', r_volume = ''8'',
        r_TotalCharges = ''nan'', r_TotalCost = [], r_TotalPaid = []\<rparr>]
   = Inr [(''001'',
       \<lparr>acc_procedures =
          [(''99213'',
            \<lparr>volume = 8, total_charges = Flt NaN, total_cost = Int0,
               total_paid = Int0, avg_charge = Flt NaN,
               avg_cost = Flt (Fin 0), avg_paid = Flt (Fin 0)\<rparr>)],
          acc_total_volume = 8, acc_total_charges = Flt NaN,
          acc_total_cost = Int0, acc_total_paid = Int0\<rparr>)]"
  by (simp add: load_parse_rows parse_nan_row accumulate_def get_acc_def default_acc_def
      update_acc_def procedure_stat_of_def round2_one del: round2.simps(1))

subsection \<open>Duplicate rows\<close>

lemma example_duplicate_rows_parse:
  "parse_rows
     [\<lparr>r_provnum = ''001'', r_category = ''99213'', r_volume = ''4'',
        r_TotalCharges = ''3'', r_TotalCost = ''1'', r_TotalPaid = ''1''\<rparr>,
      \<lparr>r_provnum = ''001'', r_category = ''99213'', r_volume = ''8'',
        r_TotalCharges = ''1'', r_TotalCost = [], r_TotalPaid = ''1''\<rparr>]
   = Inr [\<lparr>p_provnum = ''001'', p_category = ''99213'', p_volume = 4,
            p_total_charges = Flt (Fin 3), p_total_cost = Flt (Fin 1),
            p_total_paid = Flt (Fin 1), p_avg_charge = Flt (Fin (3 / 4)),
            p_avg_cost = Flt (Fin (1 / 4)), p_avg_paid = Flt (Fin (1 / 4))\<rparr>,
          \<lparr>p_provnum = ''001'', p_category = ''99213'', p_volume = 8,
            p_total_charges = Flt (Fin 1), p_total_cost = Int0,
            p_total_paid = Flt (Fin 1), p_avg_charge = Flt (Fin (1 / 8)),
            p_avg_cost = Flt (Fin 0), p_avg_paid = Flt (Fin (1 / 8))\<rparr>]"
  by (simp add: parse_row_def parse_volume_def parse_amount_def py_int_examples py_float_one
      py_float_three average_examples)

text \<open>
  Claim C1. Let the rows of the extract all pass lines 29 to 39, giving \<open>ps\<close>, and let
  \<open>q\<close> be one of them. The extractor returns a dictionary with an entry for \<open>q\<close>'s
  facility. In it, the breakdown stored under \<open>q\<close>'s procedure code is the one computed
  from the last row of the file with that facility and that code, while the running totals
  of the facility are the sums, row by row in file order, over every row of the facility,
  duplicates included.
\<close>

theorem duplicate_rows_last_wins_totals_add:
  assumes "parse_rows rows = Inr ps" and "q \<in> set ps"
  shows "\<exists>hdata h.
           load_hospital_price_data rows = Inr hdata
         \<and> map_of hdata (p_provnum q) = Some h
         \<and> map_of (acc_procedures h) (p_category q) =
             Some (procedure_stat_of
                    (last [p\<leftarrow>ps. p_provnum p = p_provnum q \<and> p_category p = p_category q]))
         \<and> acc_total_volume h = sum_list (map p_volume [p\<leftarrow>ps. p_provnum p = p_provnum q])
         \<and> acc_total_charges h =
             foldl amount_add Int0 (map p_total_charges [p\<leftarrow>ps. p_provnum p = p_provnum q])
         \<and> acc_total_cost h =
             foldl amount_add Int0 (map p_total_cost [p\<leftarrow>ps. p_provnum p = p_provnum q])
         \<and> acc_total_paid h =
             foldl amount_add Int0 (map p_total_paid [p\<leftarrow>ps. p_provnum p = p_provnum q])"
proof -
  let ?fac = "[p\<leftarrow>ps. p_provnum p = p_provnum q]"
  let ?h = "foldl update_acc default_acc ?fac"
  have load: "load_hospital_price_data rows = Inr (foldl accumulate [] ps)"
    by (simp add: load_parse_rows assms(1))
  have fac: "?fac \<noteq> []"
    using assms(2) by (auto simp: filter_empty_conv)
  have h: "map_of (foldl accumulate [] ps) (p_provnum q) = Some ?h"
    using fac by (simp add: map_of_foldl_accumulate get_acc_def)
  have dup: "[p\<leftarrow>?fac. p_category p = p_category q] \<noteq> []"
    using assms(2) by (auto simp: filter_empty_conv)
  have procs: "map_of (acc_procedures ?h) (p_category q) =
      Some (procedure_stat_of (last [p\<leftarrow>?fac. p_category p = p_category q]))"
    using dup by (simp only: procedures_foldl_update_acc map_of_foldl_update if_False)
  have procs': "map_of (acc_procedures ?h) (p_category q) =
      Some (procedure_stat_of
             (last [p\<leftarrow>ps. p_provnum p = p_provnum q \<and> p_category p = p_category q]))"
    using procs by (simp add: conj_commute)
  have vol: "acc_total_volume ?h = sum_list (map p_volume ?fac)"
    by (simp add: volume_foldl_update_acc default_acc_def)
  have ch: "acc_total_charges ?h = foldl amount_add Int0 (map p_total_charges ?fac)"
    by (simp add: charges_foldl_update_acc default_acc_def)
  have co: "acc_total_cost ?h = foldl amount_add Int0 (map p_total_cost ?fac)"
    by (simp add: cost_foldl_update_acc default_acc_def)
  have pa: "acc_total_paid ?h = foldl amount_add Int0 (map p_total_paid ?fac)"
    by (simp add: paid_foldl_update_acc default_acc_def)
  show ?thesis
    using load h procs' vol ch co pa by blast
qed

theorem duplicate_rows_last_wins_totals_add_witness:
  "\<exists>hdata h.
     load_hospital_price_data
       [\<lparr>r_provnum = ''001'', r_category = ''99213'', r_volume = ''4'',
          r_TotalCharges = ''3'', r_TotalCost = ''1'', r_TotalPaid = ''1''\<rparr>,
        \<lparr>r_provnum = ''001'', r_category = ''99213'', r_volume = ''8'',
          r_TotalCharges = ''1'', r_TotalCost = [], r_TotalPaid = ''1''\<rparr>] = Inr hdata
   \<and> map_of hdata ''001'' = Some h
   \<and> map_of (acc_procedures h) ''99213'' =
       Some \<lparr>volume = 8, total_charges = Flt (Fin 1), total_cost = Int0,
             total_paid = Flt (Fin 1),
             avg_charge = Flt (Fin (1080863910568919 / 9007199254740992)),
             avg_cost = Flt (Fin 0),
             avg_paid = Flt (Fin (1080863910568919 / 9007199254740992))\<rparr>
   \<and> acc_total_volume h = 12
   \<and> acc_total_charges h = Flt (Fin 4)
   \<and> acc_total_cost h = Flt (Fin 1)
   \<and> acc_total_paid h = Flt (Fin 2)"
proof -
  let ?p2 = "\<lparr>p_provnum = ''001'', p_category = ''99213'', p_volume = 8,
            p_total_charges = Flt (Fin 1), p_total_cost = Int0,
            p_total_paid = Flt (Fin 1), p_avg_charge = Flt (Fin (1 / 8)),
            p_avg_cost = Flt (Fin 0), p_avg_paid = Flt (Fin (1 / 8))\<rparr>"
  have st: "procedure_stat_of ?p2 =
       \<lparr>volume = 8, total_charges = Flt (Fin 1), total_cost = Int0,
             total_paid = Flt (Fin 1),
             avg_charge = Flt (Fin (1080863910568919 / 9007199254740992)),
             avg_cost = Flt (Fin 0),
             avg_paid = Flt (Fin (1080863910568919 / 9007199254740992))\<rparr>"
    by (simp add: procedure_stat_of_def round2_one round2_eighth del: round2.simps(1))
  show ?thesis
    using duplicate_rows_last_wins_totals_add [OF example_duplicate_rows_parse, of ?p2]
    by (simp add: st to_double_numeral)
qed

subsection \<open>Fields the conversions reject\<close>

text \<open>
  Claim C6, as amended. A field is rejected when it is not empty and the conversion the
  code applies to it (\<open>int()\<close> for the volume, \<open>float()\<close> for the three amounts) raises.
  A row with a rejected field raises \<open>ValueError\<close> in its pass of the loop, and if any row
  of the extract has one, the extractor raises and the whole run raises the same
  exception, whatever the other rows and the reference tables are: \<open>ValueError\<close>, or the
  \<open>OverflowError\<close> of a division in an earlier row. No result is produced for any row.
\<close>

theorem rejected_number_aborts_run:
  assumes "row \<in> set rows"
      and "(r_volume row \<noteq> [] \<and> py_int (r_volume row) = None)
         \<or> (r_TotalCharges row \<noteq> [] \<and> py_float (r_TotalCharges row) = None)
         \<or> (r_TotalCost row \<noteq> [] \<and> py_float (r_TotalCost row) = None)
         \<or> (r_TotalPaid row \<noteq> [] \<and> py_float (r_TotalPaid row) = None)"
  shows "parse_row row = Inl ValueError
       \<and> (\<exists>e. (e = ValueError \<or> e = OverflowError)
             \<and> load_hospital_price_data rows = Inl e
             \<and> process_and_export_data rows facility_xl procedure_xl service_xl = Inl e)"
proof -
  have row: "parse_row row = Inl ValueError"
    using assms(2) by (rule malformed_row_fails)
  then obtain e where e: "parse_rows rows = Inl e"
    using assms(1) parse_rows_member_fails by blast
  then have kind: "e = ValueError \<or> e = OverflowError"
    by (rule parse_rows_error)
  have load: "load_hospital_price_data rows = Inl e"
    using e by (simp add: load_parse_rows)
  then have "process_and_export_data rows facility_xl procedure_xl service_xl = Inl e"
    by (simp add: process_and_export_data_def)
  then show ?thesis
    using row kind load by blast
qed

theorem rejected_number_aborts_run_witness:
  "parse_row \<lparr>r_provnum = ''002'', r_category = ''99213'', r_volume = ''3'',
               r_TotalCharges = ''12,5'', r_TotalCost = [], r_TotalPaid = []\<rparr> = Inl ValueError
 \<and> load_hospital_price_data
     [\<lparr>r_provnum = ''001'', r_category = ''99213'', r_volume = ''8'',
        r_TotalCharges = ''1'', r_TotalCost = [], r_TotalPaid = []\<rparr>,
      \<lparr>r_provnum = ''002'', r_category = ''99213'', r_volume = ''3'',
        r_TotalCharges = ''12,5'', r_TotalCost = [], r_TotalPaid = []\<rparr>] = Inl ValueError
 \<and> process_and_export_data
     [\<lparr>r_provnum = ''001'', r_category = ''99213'', r_volume = ''8'',
        r_TotalCharges = ''1'', r_TotalCost = [], r_TotalPaid = []\<rparr>,
      \<lparr>r_provnum = ''002'', r_category = ''99213'', r_volume = ''3'',
        r_TotalCharges = ''12,5'', r_TotalCost = [], r_TotalPaid = []\<rparr>]
     (Inl OSError) (Inl OSError) (Inl OSError) = Inl ValueError"
proof -
  let ?bad = "\<lparr>r_provnum = ''002'', r_category = ''99213'', r_volume = ''3'',
               r_TotalCharges = ''12,5'', r_TotalCost = [], r_TotalPaid = []\<rparr>"
  let ?rows = "[\<lparr>r_provnum = ''001'', r_category = ''99213'', r_volume = ''8'',
        r_TotalCharges = ''1'', r_TotalCost = [], r_TotalPaid = []\<rparr>, ?bad]"
  have bad: "parse_row ?bad = Inl ValueError"
    and run: "\<exists>e. (e = ValueError \<or> e = OverflowError)
             \<and> load_hospital_price_data ?rows = Inl e
             \<and> process_and_export_data ?rows (Inl OSError) (Inl OSError) (Inl OSError) = Inl e"
    using rejected_number_aborts_run [of ?bad ?rows "Inl OSError" "Inl OSError" "Inl OSError"]
    by (simp_all add: py_float_special)
  have "load_hospital_price_data ?rows = Inl ValueError"
    by (simp add: load_parse_rows parse_example_row bad)
  then show ?thesis
    using bad run by auto
qed

text \<open>
  The claim as stated fails: \<open>nan\<close> is not a number, and \<open>float()\<close> converts it. From
  the row \<open>001|99213|8|nan||\<close> the extractor returns, with NaN as the stored total, the
  stored average and the running total of the facility.
\<close>

theorem nan_amount_does_not_stop_the_run:
  "r_TotalCharges \<lparr>r_provnum = ''001'', r_category = ''99213'', r_volume = ''8'',
        r_TotalCharges = ''nan'', r_TotalCost = [], r_TotalPaid = []\<rparr> = ''nan''
 \<and> py_float ''nan'' = Some NaN
 \<and> load_hospital_price_data
     [\<lparr>r_provnum = ''001'', r_category = ''99213'', r_volume = ''8'',
        r_TotalCharges = ''nan'', r_TotalCost = [], r_TotalPaid = []\<rparr>]
   = Inr [(''001'',
       \<lparr>acc_procedures =
          [(''99213'',
            \<lparr>volume = 8, total_charges = Flt NaN, total_cost = Int0,
               total_paid = Int0, avg_charge = Flt NaN,
               avg_cost = Flt (Fin 0), avg_paid = Flt (Fin 0)\<rparr>)],
          acc_total_volume = 8, acc_total_charges = Flt NaN,
          acc_total_cost = Int0, acc_total_paid = Int0\<rparr>)]
 \<and> process_and_export_data
     [\<lparr>r_provnum = ''001'', r_category = ''99213'', r_volume = ''8'',
        r_TotalCharges = ''nan'', r_TotalCost = [], r_TotalPaid = []\<rparr>]
     (Inl OSError) (Inl OSError) (Inl OSError)
   = Inr \<lparr>hospitals =
           [(''001'',
             \<lparr>name = ''Hospital 001'', provnum = ''001'', city = [], state = [],
                zip_code = [], beds_total = 0, hospital_type = [], ownership = [],
                procedures =
                  [(''99213'',
                    \<lparr>volume = 8, total_charges = Flt NaN, total_cost = Int0,
                       total_paid = Int0, avg_charge = Flt NaN,
                       avg_cost = Flt (Fin 0), avg_paid = Flt (Fin 0)\<rparr>)],
                summary =
                  \<lparr>total_volume = 8, sum_total_charges = Flt NaN,
                     sum_total_cost = Int0, sum_total_paid = Int0,
                     avg_charge_per_case = Flt NaN\<rparr>\<rparr>)],
          procedure_codes = {''99213''}, procedure_names = [], service_categories = [],
          service_category_map = [], shoppable_map = []\<rparr>"
  by (simp add: example_nan_row_load py_float_special process_and_export_data_def
      load_facility_data_def load_procedure_names_def load_service_categories_def
      format_hospitals_def summary_of_def average_examples unified_record_def)

section \<open>Properties of the merge\<close>

subsection \<open>The output dictionary of hospitals\<close>

lemma summary_of_error:
  "summary_of data = Inl e \<Longrightarrow> e = OverflowError \<and> 2 ^ 1023 \<le> acc_total_volume data"
  by (auto simp: summary_of_def split: sum.splits dest: average_error)

lemma summary_of_volume: "summary_of data = Inr s \<Longrightarrow> total_volume s = acc_total_volume data"
  by (auto simp: summary_of_def split: sum.splits)

lemma format_loop_Inl:
  "format_loop fd out hdata = Inl e \<Longrightarrow> \<exists>x \<in> set hdata. summary_of (snd x) = Inl e"
proof (induction hdata arbitrary: out)
  case Nil
  then show ?case by simp
next
  case (Cons x hdata)
  obtain pn data where x: "x = (pn, data)"
    by (cases x)
  show ?case
  proof (cases "summary_of data")
    case (Inl e')
    then show ?thesis
      using Cons.prems x by simp
  next
    case (Inr s)
    then have "format_loop fd (AList.update pn (unified_record fd pn data s) out) hdata = Inl e"
      using Cons.prems x by simp
    then show ?thesis
      using Cons.IH by auto
  qed
qed

lemma format_loop_Inr:
  assumes "format_loop fd out hdata = Inr res"
      and "distinct (map fst hdata)" and "fst ` set hdata \<inter> fst ` set out = {}"
  shows "\<exists>rs. res = out @ rs
           \<and> list_all2 (\<lambda>x y. fst y = fst x
                  \<and> (\<exists>s. summary_of (snd x) = Inr s
                        \<and> snd y = unified_record fd (fst x) (snd x) s)) hdata rs"
  using assms
proof (induction hdata arbitrary: out)
  case Nil
  then show ?case by simp
next
  case (Cons x hdata)
  obtain pn data where x: "x = (pn, data)"
    by (cases x)
  obtain s where s: "summary_of data = Inr s"
    and rest: "format_loop fd (AList.update pn (unified_record fd pn data s) out) hdata = Inr res"
    using Cons.prems(1) x by (cases "summary_of data") simp_all
  let ?u = "unified_record fd pn data s"
  let ?R = "\<lambda>x y. fst y = fst x
              \<and> (\<exists>s. summary_of (snd x) = Inr s
                    \<and> snd y = unified_record fd (fst x) (snd x) s)"
  have new: "pn \<notin> fst ` set out"
    using Cons.prems(3) x by auto
  have upd: "AList.update pn ?u out = out @ [(pn, ?u)]"
    using new by (induction out) auto
  have "distinct (map fst hdata)" and "fst ` set hdata \<inter> fst ` set (out @ [(pn, ?u)]) = {}"
    using Cons.prems(2,3) x by auto
  then obtain rs where rs: "res = (out @ [(pn, ?u)]) @ rs" and all: "list_all2 ?R hdata rs"
    using Cons.IH[of "out @ [(pn, ?u)]"] rest upd by auto
  have "list_all2 ?R (x # hdata) ((pn, ?u) # rs)"
    using all by (simp add: x s)
  then show ?case
    using rs by (intro exI[of _ "(pn, ?u) # rs"]) (simp add: x s)
qed

lemma records_keys: "list_all2 (\<lambda>x y. fst y = fst x \<and> Q x y) hdata rs \<Longrightarrow> map fst rs = map fst hdata"
  by (induction rule: list_all2_induct) simp_all

lemma records_lookup:
  "list_all2 (\<lambda>x y. fst y = fst x
      \<and> (\<exists>s. summary_of (snd x) = Inr s \<and> snd y = unified_record fd (fst x) (snd x) s))
     hdata rs \<Longrightarrow> map_of rs pn = Some u \<Longrightarrow>
   \<exists>data s. map_of hdata pn = Some data \<and> summary_of data = Inr s
      \<and> u = unified_record fd pn data s"
proof (induction rule: list_all2_induct)
  case Nil
  then show ?case by simp
next
  case (Cons x hdata y rs)
  show ?case
  proof (cases "fst y = pn")
    case True
    then have "snd y = u"
      using Cons.prems by (cases y) auto
    then show ?thesis
      using Cons.hyps(1) True by (cases x) auto
  next
    case False
    then have "map_of rs pn = Some u"
      using Cons.prems by (cases y) auto
    then show ?thesis
      using Cons.IH Cons.hyps(1) False by (cases x) auto
  qed
qed

lemma format_hospitals_result:
  assumes "format_hospitals fd hdata = Inr res" and "distinct (map fst hdata)"
  shows "map fst res = map fst hdata"
    and "map_of res pn = Some u \<Longrightarrow>
         \<exists>data s. map_of hdata pn = Some data \<and> summary_of data = Inr s
            \<and> u = unified_record fd pn data s"
proof -
  let ?R = "\<lambda>x y. fst y = fst x
              \<and> (\<exists>s. summary_of (snd x) = Inr s
                    \<and> snd y = unified_record fd (fst x) (snd x) s)"
  have "\<exists>rs. res = [] @ rs \<and> list_all2 ?R hdata rs"
    using assms by (intro format_loop_Inr) (simp_all add: format_hospitals_def)
  then have all: "list_all2 ?R hdata res"
    by simp
  show "map fst res = map fst hdata"
    using all by (rule records_keys)
  show "\<exists>data s. map_of hdata pn = Some data \<and> summary_of data = Inr s
            \<and> u = unified_record fd pn data s" if "map_of res pn = Some u"
    using all that by (rule records_lookup)
qed

lemma distinct_load:
  "load_hospital_price_data rows = Inr hdata \<Longrightarrow> distinct (map fst hdata)"
  by (auto simp: load_parse_rows distinct_foldl_accumulate split: sum.splits)

text \<open>
  The run after the extractor has returned: it returns the output built from the loaders'
  results, unless the division of a summary raises, which takes a facility whose volumes
  add up to \<open>2 ^ 1023\<close> or more.
\<close>

lemma run_output:
  assumes "load_hospital_price_data rows = Inr hdata"
  shows "(\<exists>out. process_and_export_data rows facility_xl procedure_xl service_xl = Inr out
           \<and> format_hospitals (load_facility_data facility_xl) hdata = Inr (hospitals out)
           \<and> procedure_names out = load_procedure_names procedure_xl
           \<and> (service_category_map out, shoppable_map out, service_categories out) =
               load_service_categories service_xl
           \<and> procedure_codes out =
               set (concat (map (\<lambda>(pn, data). map fst (acc_procedures data)) hdata)))
       \<or> (process_and_export_data rows facility_xl procedure_xl service_xl = Inl OverflowError
           \<and> (\<exists>x \<in> set hdata. 2 ^ 1023 \<le> acc_total_volume (snd x)))"
proof -
  obtain cm sm cs where svc: "load_service_categories service_xl = (cm, sm, cs)"
    by (cases "load_service_categories service_xl") auto
  show ?thesis
  proof (cases "format_hospitals (load_facility_data facility_xl) hdata")
    case (Inl e)
    then obtain x where "x \<in> set hdata" and "summary_of (snd x) = Inl e"
      using format_loop_Inl unfolding format_hospitals_def by blast
    then have "e = OverflowError" and "\<exists>x \<in> set hdata. 2 ^ 1023 \<le> acc_total_volume (snd x)"
      using summary_of_error by blast+
    then show ?thesis
      using Inl by (simp add: process_and_export_data_def assms svc)
  next
    case (Inr hs)
    then show ?thesis
      by (simp add: process_and_export_data_def assms svc)
  qed
qed

lemma run_returns:
  assumes "process_and_export_data rows facility_xl procedure_xl service_xl = Inr out"
  shows "\<exists>hdata. load_hospital_price_data rows = Inr hdata
           \<and> format_hospitals (load_facility_data facility_xl) hdata = Inr (hospitals out)
           \<and> procedure_names out = load_procedure_names procedure_xl
           \<and> procedure_codes out =
               set (concat (map (\<lambda>(pn, data). map fst (acc_procedures data)) hdata))"
proof -
  obtain hdata where load: "load_hospital_price_data rows = Inr hdata"
    using assms by (cases "load_hospital_price_data rows") (simp_all add: process_and_export_data_def)
  then show ?thesis
    using run_output[OF load, of facility_xl procedure_xl service_xl] assms by auto
qed

lemma example_single_row_run:
  "process_and_export_data
     [\<lparr>r_provnum = ''001'', r_category = ''99213'', r_volume = ''8'',
        r_TotalCharges = ''1'', r_TotalCost = [], r_TotalPaid = []\<rparr>]
     (Inl OSError) (Inl OSError) (Inl OSError)
   = Inr \<lparr>hospitals =
           [(''001'',
             \<lparr>name = ''Hospital 001'', provnum = ''001'', city = [], state = [],
                zip_code = [], beds_total = 0, hospital_type = [], ownership = [],
                procedures =
                  [(''99213'',
                    \<lparr>volume = 8, total_charges = Flt (Fin 1), total_cost = Int0,
                       total_paid = Int0,
                       avg_charge = Flt (Fin (1080863910568919 / 9007199254740992)),
                       avg_cost = Flt (Fin 0), avg_paid = Flt (Fin 0)\<rparr>)],
                summary =
                  \<lparr>total_volume = 8, sum_total_charges = Flt (Fin 1),
                     sum_total_cost = Int0, sum_total_paid = Int0,
                     avg_charge_per_case =
                       Flt (Fin (1080863910568919 / 9007199254740992))\<rparr>\<rparr>)],
          procedure_codes = {''99213''}, procedure_names = [], service_categories = [],
          service_category_map = [], shoppable_map = []\<rparr>"
  by (simp add: process_and_export_data_def example_single_row_load load_facility_data_def
      load_procedure_names_def load_service_categories_def format_hospitals_def summary_of_def
      average_examples unified_record_def round2_one round2_eighth del: round2.simps(1))



subsection \<open>Summary volume\<close>

lemma sum_volume_procedures:
  assumes "distinct (map p_category ps)"
  shows "sum_list (map (\<lambda>(c, st). volume st)
           (foldl (\<lambda>al p. AList.update (p_category p) (procedure_stat_of p) al) [] ps))
         = sum_list (map p_volume ps)"
proof -
  have "foldl (\<lambda>al p. AList.update (p_category p) (procedure_stat_of p) al) [] ps
        = [] @ map (\<lambda>p. (p_category p, procedure_stat_of p)) ps"
    using assms by (intro foldl_update_distinct) simp_all
  then show ?thesis
    by (simp add: comp_def procedure_stat_of_def)
qed

lemma round_half_even_numeral: "round_half_even (numeral w) = numeral w"
  using round_half_even_of_int[of "numeral w"] by simp

lemma round2_quarter: "round2 (Fin (1 / 4)) = Fin (1 / 4)"
  by (simp add: round_half_even_numeral to_double_quarters)

lemma example_two_codes_run:
  "process_and_export_data
     [\<lparr>r_provnum = ''001'', r_category = ''99213'', r_volume = ''4'',
        r_TotalCharges = ''1'', r_TotalCost = [], r_TotalPaid = []\<rparr>,
      \<lparr>r_provnum = ''001'', r_category = ''99214'', r_volume = ''4'',
        r_TotalCharges = ''1'', r_TotalCost = [], r_TotalPaid = []\<rparr>]
     (Inl OSError) (Inl OSError) (Inl OSError)
   = Inr \<lparr>hospitals =
           [(''001'',
             \<lparr>name = ''Hospital 001'', provnum = ''001'', city = [], state = [],
                zip_code = [], beds_total = 0, hospital_type = [], ownership = [],
                procedures =
                  [(''99213'',
                    \<lparr>volume = 4, total_charges = Flt (Fin 1), total_cost = Int0,
                       total_paid = Int0, avg_charge = Flt (Fin (1 / 4)),
                       avg_cost = Flt (Fin 0), avg_paid = Flt (Fin 0)\<rparr>),
                   (''99214'',
                    \<lparr>volume = 4, total_charges = Flt (Fin 1), total_cost = Int0,
                       total_paid = Int0, avg_charge = Flt (Fin (1 / 4)),
                       avg_cost = Flt (Fin 0), avg_paid = Flt (Fin 0)\<rparr>)],
                summary =
                  \<lparr>total_volume = 8, sum_total_charges = Flt (Fin 2),
                     sum_total_cost = Int0, sum_total_paid = Int0,
                     avg_charge_per_case = Flt (Fin (1 / 4))\<rparr>\<rparr>)],
          procedure_codes = {''99213'', ''99214''}, procedure_names = [],
          service_categories = [], service_category_map = [], shoppable_map = []\<rparr>"
proof -
  have p: "parse_rows
     [\<lparr>r_provnum = ''001'', r_category = ''99213'', r_volume = ''4'',
        r_TotalCharges = ''1'', r_TotalCost = [], r_TotalPaid = []\<rparr>,
      \<lparr>r_provnum = ''001'', r_category = ''99214'', r_volume = ''4'',
        r_TotalCharges = ''1'', r_TotalCost = [], r_TotalPaid = []\<rparr>]
     = Inr [\<lparr>p_provnum = ''001'', p_category = ''99213'', p_volume = 4,
            p_total_charges = Flt (Fin 1), p_total_cost = Int0, p_total_paid = Int0,
            p_avg_charge = Flt (Fin (1 / 4)), p_avg_cost = Flt (Fin 0),
            p_avg_paid = Flt (Fin 0)\<rparr>,
           \<lparr>p_provnum = ''001'', p_category = ''99214'', p_volume = 4,
            p_total_charges = Flt (Fin 1), p_total_cost = Int0, p_total_paid = Int0,
            p_avg_charge = Flt (Fin (1 / 4)), p_avg_cost = Flt (Fin 0),
            p_avg_paid = Flt (Fin 0)\<rparr>]"
    by (simp add: parse_row_def parse_volume_def parse_amount_def py_int_examples py_float_one
        average_examples)
  have two: "to_double 2 = Fin 2" and r2: "round2 (Fin 2) = Fin 2"
    using to_double_int[of 2] round2_of_int[of 2] by simp_all
  have a: "average (Flt (Fin 2)) 8 = Inr (Flt (Fin (1 / 4)))"
    by (simp add: average_def float_of_int_small to_double_quarters)
  have load: "load_hospital_price_data
     [\<lparr>r_provnum = ''001'', r_category = ''99213'', r_volume = ''4'',
        r_TotalCharges = ''1'', r_TotalCost = [], r_TotalPaid = []\<rparr>,
      \<lparr>r_provnum = ''001'', r_category = ''99214'', r_volume = ''4'',
        r_TotalCharges = ''1'', r_TotalCost = [], r_TotalPaid = []\<rparr>]
     = Inr (foldl accumulate []
         [\<lparr>p_provnum = ''001'', p_category = ''99213'', p_volume = 4,
            p_total_charges = Flt (Fin 1), p_total_cost = Int0, p_total_paid = Int0,
            p_avg_charge = Flt (Fin (1 / 4)), p_avg_cost = Flt (Fin 0),
            p_avg_paid = Flt (Fin 0)\<rparr>,
           \<lparr>p_provnum = ''001'', p_category = ''99214'', p_volume = 4,
            p_total_charges = Flt (Fin 1), p_total_cost = Int0, p_total_paid = Int0,
            p_avg_charge = Flt (Fin (1 / 4)), p_avg_cost = Flt (Fin 0),
            p_avg_paid = Flt (Fin 0)\<rparr>])"
    by (simp only: load_parse_rows p sum.case)
  show ?thesis
    unfolding process_and_export_data_def load
    by (simp add: accumulate_def get_acc_def
        default_acc_def update_acc_def procedure_stat_of_def load_facility_data_def
        load_procedure_names_def load_service_categories_def format_hospitals_def summary_of_def
        a two r2 unified_record_def round2_one round2_quarter insert_commute
        del: round2.simps(1))
qed

text \<open>
  Claim C5. If no two rows of the extract share both facility id and procedure code, then
  for every facility of the output the summary's \<open>total_volume\<close> is the sum of the
  \<open>volume\<close> fields of its per-procedure entries.
\<close>

theorem total_volume_is_sum_of_procedure_volumes:
  assumes "process_and_export_data rows facility_xl procedure_xl service_xl = Inr out"
      and "distinct (map (\<lambda>r. (r_provnum r, r_category r)) rows)"
      and "map_of (hospitals out) pn = Some u"
  shows "total_volume (summary u) = sum_list (map (\<lambda>(c, st). volume st) (procedures u))"
proof -
  let ?fd = "load_facility_data facility_xl"
  obtain hdata where load: "load_hospital_price_data rows = Inr hdata"
    and hosp: "format_hospitals ?fd hdata = Inr (hospitals out)"
    using run_returns[OF assms(1)] by blast
  obtain ps where ps: "parse_rows rows = Inr ps" and hdata: "hdata = foldl accumulate [] ps"
    using load by (cases "parse_rows rows") (simp_all add: load_parse_rows)
  have dist: "distinct (map fst hdata)"
    using load by (rule distinct_load)
  let ?fac = "[p\<leftarrow>ps. p_provnum p = pn]"
  obtain data s where data: "map_of hdata pn = Some data" and s: "summary_of data = Inr s"
    and u: "u = unified_record ?fd pn data s"
    using format_hospitals_result(2)[OF hosp dist assms(3)] by blast
  have data_eq: "data = foldl update_acc default_acc ?fac"
    using data by (simp add: hdata map_of_foldl_accumulate get_acc_def split: if_splits)
  have "distinct (map (\<lambda>p. (p_provnum p, p_category p)) ps)"
    using assms(2) parse_rows_keys[OF ps] by simp
  then have cats: "distinct (map p_category ?fac)"
    by (rule distinct_categories_of_facility)
  have vol: "acc_total_volume data = sum_list (map p_volume ?fac)"
    by (simp add: data_eq volume_foldl_update_acc default_acc_def)
  have procs: "acc_procedures data =
      foldl (\<lambda>al p. AList.update (p_category p) (procedure_stat_of p) al) [] ?fac"
    by (simp add: data_eq procedures_foldl_update_acc default_acc_def)
  have "sum_list (map (\<lambda>(c, st). volume st) (acc_procedures data)) = sum_list (map p_volume ?fac)"
    unfolding procs using cats by (rule sum_volume_procedures)
  then show ?thesis
    using vol summary_of_volume[OF s] by (simp add: u unified_record_def Let_def)
qed

theorem total_volume_is_sum_of_procedure_volumes_witness:
  "\<exists>out u.
     process_and_export_data
       [\<lparr>r_provnum = ''001'', r_category = ''99213'', r_volume = ''4'',
          r_TotalCharges = ''1'', r_TotalCost = [], r_TotalPaid = []\<rparr>,
        \<lparr>r_provnum = ''001'', r_category = ''99214'', r_volume = ''4'',
          r_TotalCharges = ''1'', r_TotalCost = [], r_TotalPaid = []\<rparr>]
       (Inl OSError) (Inl OSError) (Inl OSError) = Inr out
   \<and> map_of (hospitals out) ''001'' = Some u
   \<and> total_volume (summary u) = 8
   \<and> sum_list (map (\<lambda>(c, st). volume st) (procedures u)) = 8"
proof -
  let ?rows = "[\<lparr>r_provnum = ''001'', r_category = ''99213'', r_volume = ''4'',
          r_TotalCharges = ''1'', r_TotalCost = [], r_TotalPaid = []\<rparr>,
        \<lparr>r_provnum = ''001'', r_category = ''99214'', r_volume = ''4'',
          r_TotalCharges = ''1'', r_TotalCost = [], r_TotalPaid = []\<rparr>]"
  obtain out where run: "process_and_export_data ?rows (Inl OSError) (Inl OSError) (Inl OSError) = Inr out"
    and hosp: "map fst (hospitals out) = [''001'']"
    and tv: "map (\<lambda>(pn, u). total_volume (summary u)) (hospitals out) = [8]"
    by (simp add: example_two_codes_run)
  obtain u where hs: "hospitals out = [(''001'', u)]" and tvu: "total_volume (summary u) = 8"
    using hosp tv by (cases "hospitals out") auto
  have u: "map_of (hospitals out) ''001'' = Some u"
    by (simp add: hs)
  have rows: "distinct (map (\<lambda>r. (r_provnum r, r_category r)) ?rows)"
    by simp
  have "total_volume (summary u) = sum_list (map (\<lambda>(c, st). volume st) (procedures u))"
    using total_volume_is_sum_of_procedure_volumes [OF run rows u] .
  then show ?thesis
    using run u tvu by (intro exI[of _ out] exI[of _ u]) simp
qed

section \<open>The stored averages\<close>

lemma parse_row_averages:
  assumes "parse_row row = Inr p"
  shows "average (p_total_charges p) (p_volume p) = Inr (p_avg_charge p)"
    and "average (p_total_cost p) (p_volume p) = Inr (p_avg_cost p)"
    and "average (p_total_paid p) (p_volume p) = Inr (p_avg_paid p)"
  using assms by (auto simp: parse_row_def split: sum.splits)

lemma rounded_average:
  assumes "average x v = Inr a"
  shows "(if 0 < v then true_div x v = Inr a else round_amount a = Int0)
       \<and> (\<not> amount_negative x \<longrightarrow> \<not> amount_negative (round_amount a))"
proof (cases "0 < v")
  case True
  then have td: "true_div x v = Inr a"
    using assms by (simp add: average_def)
  have "\<not> amount_negative (round_amount a)" if "\<not> amount_negative x"
    using true_div_not_negative[OF that True td] by (rule round_amount_not_negative)
  then show ?thesis
    using True td by simp
next
  case False
  then have "a = Int0"
    using assms by (simp add: average_def)
  then show ?thesis
    using False by simp
qed

lemma parse_rows_members:
  "parse_rows rows = Inr ps \<Longrightarrow> p \<in> set ps \<Longrightarrow> \<exists>row \<in> set rows. parse_row row = Inr p"
proof (induction rows arbitrary: ps)
  case Nil
  then show ?case by simp
next
  case (Cons r rows)
  then show ?case by (auto split: sum.splits)
qed

lemma last_filter_member: "filter P xs \<noteq> [] \<Longrightarrow> last (filter P xs) \<in> set xs \<and> P (last (filter P xs))"
proof -
  assume ne: "filter P xs \<noteq> []"
  then have "last (filter P xs) \<in> set (filter P xs)" by (rule last_in_set)
  then show ?thesis by simp
qed

lemma stored_stat_origin:
  assumes "load_hospital_price_data rows = Inr hdata"
      and "map_of hdata pn = Some h"
      and "map_of (acc_procedures h) c = Some st"
  shows "\<exists>row p. row \<in> set rows \<and> parse_row row = Inr p \<and> r_provnum row = pn
           \<and> r_category row = c \<and> st = procedure_stat_of p"
proof -
  obtain ps where ps: "parse_rows rows = Inr ps" and hdata: "hdata = foldl accumulate [] ps"
    using assms(1) by (cases "parse_rows rows") (simp_all add: load_parse_rows)
  let ?fac = "[p\<leftarrow>ps. p_provnum p = pn]"
  have h: "h = foldl update_acc default_acc ?fac"
    using assms(2) by (simp add: hdata map_of_foldl_accumulate get_acc_def split: if_splits)
  let ?dup = "[p\<leftarrow>?fac. p_category p = c]"
  have procs: "acc_procedures h =
      foldl (\<lambda>al p. AList.update (p_category p) (procedure_stat_of p) al) [] ?fac"
    by (simp add: h procedures_foldl_update_acc default_acc_def)
  have ne: "?dup \<noteq> []" and st: "st = procedure_stat_of (last ?dup)"
    using assms(3) unfolding procs map_of_foldl_update by (simp_all split: if_splits)
  let ?p = "last ?dup"
  have "?p \<in> set ?fac \<and> p_category ?p = c"
    using ne by (rule last_filter_member)
  then have mem: "?p \<in> set ps" and pn: "p_provnum ?p = pn" and c: "p_category ?p = c"
    by simp_all
  obtain row where row: "row \<in> set rows" "parse_row row = Inr ?p"
    using parse_rows_members[OF ps mem] by blast
  have "r_provnum row = pn \<and> r_category row = c"
    using parse_row_keys[OF row(2)] pn c by simp
  then show ?thesis
    using row st by blast
qed

text \<open>
  Claim C2, as amended. Every stored per-procedure entry comes from a row of the extract
  with parsed volume \<open>v\<close> and parsed amounts \<open>t\<close>. Its stored totals are the amounts
  rounded to two decimals. Each stored average is the float quotient \<open>t / v\<close> rounded to
  two decimals when \<open>v > 0\<close>, and the integer \<open>0\<close> otherwise, no division being evaluated
  then. The total and the average are rounded separately, each to the float nearest a
  two-decimal number, so the stored average is in general not the stored total divided by
  the volume. An average is negative only if the row's amount is.
\<close>

theorem stored_averages_are_rounded_quotients:
  assumes "load_hospital_price_data rows = Inr hdata"
      and "map_of hdata pn = Some h"
      and "map_of (acc_procedures h) c = Some st"
  shows "\<exists>row p. row \<in> set rows \<and> parse_row row = Inr p \<and> r_provnum row = pn
           \<and> r_category row = c \<and> volume st = p_volume p
           \<and> total_charges st = round_amount (p_total_charges p)
           \<and> total_cost st = round_amount (p_total_cost p)
           \<and> total_paid st = round_amount (p_total_paid p)
           \<and> avg_charge st = round_amount (p_avg_charge p)
           \<and> avg_cost st = round_amount (p_avg_cost p)
           \<and> avg_paid st = round_amount (p_avg_paid p)
           \<and> (if 0 < volume st
               then true_div (p_total_charges p) (volume st) = Inr (p_avg_charge p)
               else avg_charge st = Int0)
           \<and> (if 0 < volume st
               then true_div (p_total_cost p) (volume st) = Inr (p_avg_cost p)
               else avg_cost st = Int0)
           \<and> (if 0 < volume st
               then true_div (p_total_paid p) (volume st) = Inr (p_avg_paid p)
               else avg_paid st = Int0)
           \<and> (\<not> amount_negative (p_total_charges p) \<longrightarrow> \<not> amount_negative (avg_charge st))
           \<and> (\<not> amount_negative (p_total_cost p) \<longrightarrow> \<not> amount_negative (avg_cost st))
           \<and> (\<not> amount_negative (p_total_paid p) \<longrightarrow> \<not> amount_negative (avg_paid st))"
proof -
  obtain row p where row: "row \<in> set rows" "parse_row row = Inr p" "r_provnum row = pn"
      "r_category row = c" and st: "st = procedure_stat_of p"
    using stored_stat_origin[OF assms] by blast
  have v: "volume st = p_volume p"
   and t1: "total_charges st = round_amount (p_total_charges p)"
   and t2: "total_cost st = round_amount (p_total_cost p)"
   and t3: "total_paid st = round_amount (p_total_paid p)"
   and a1: "avg_charge st = round_amount (p_avg_charge p)"
   and a2: "avg_cost st = round_amount (p_avg_cost p)"
   and a3: "avg_paid st = round_amount (p_avg_paid p)"
    by (simp_all add: st procedure_stat_of_def)
  have r1: "(if 0 < volume st
               then true_div (p_total_charges p) (volume st) = Inr (p_avg_charge p)
               else avg_charge st = Int0)
           \<and> (\<not> amount_negative (p_total_charges p) \<longrightarrow> \<not> amount_negative (avg_charge st))"
    unfolding a1 v by (rule rounded_average) (rule parse_row_averages(1)[OF row(2)])
  have r2: "(if 0 < volume st
               then true_div (p_total_cost p) (volume st) = Inr (p_avg_cost p)
               else avg_cost st = Int0)
           \<and> (\<not> amount_negative (p_total_cost p) \<longrightarrow> \<not> amount_negative (avg_cost st))"
    unfolding a2 v by (rule rounded_average) (rule parse_row_averages(2)[OF row(2)])
  have r3: "(if 0 < volume st
               then true_div (p_total_paid p) (volume st) = Inr (p_avg_paid p)
               else avg_paid st = Int0)
           \<and> (\<not> amount_negative (p_total_paid p) \<longrightarrow> \<not> amount_negative (avg_paid st))"
    unfolding a3 v by (rule rounded_average) (rule parse_row_averages(3)[OF row(2)])
  show ?thesis
    by (intro exI[of _ row] exI[of _ p] conjI;
        rule row v t1 t2 t3 a1 a2 a3 r1[THEN conjunct1] r2[THEN conjunct1] r3[THEN conjunct1]
          r1[THEN conjunct2] r2[THEN conjunct2] r3[THEN conjunct2])
qed

theorem stored_averages_are_rounded_quotients_witness:
  "\<exists>row p.
     row \<in> set [\<lparr>r_provnum = ''001'', r_category = ''99213'', r_volume = ''8'',
                  r_TotalCharges = ''1'', r_TotalCost = [], r_TotalPaid = []\<rparr>]
   \<and> parse_row row = Inr p
   \<and> (8 :: int) = p_volume p
   \<and> Flt (Fin 1) = round_amount (p_total_charges p)
   \<and> Flt (Fin (1080863910568919 / 9007199254740992)) = round_amount (p_avg_charge p)
   \<and> true_div (p_total_charges p) 8 = Inr (p_avg_charge p)"
proof -
  let ?st = "\<lparr>volume = 8, total_charges = Flt (Fin 1), total_cost = Int0,
               total_paid = Int0,
               avg_charge = Flt (Fin (1080863910568919 / 9007199254740992)),
               avg_cost = Flt (Fin 0), avg_paid = Flt (Fin 0)\<rparr>"
  let ?h = "\<lparr>acc_procedures = [(''99213'', ?st)],
          acc_total_volume = 8, acc_total_charges = Flt (Fin 1),
          acc_total_cost = Int0, acc_total_paid = Int0\<rparr>"
  have l1: "map_of [(''001'', ?h)] ''001'' = Some ?h" by simp
  have l2: "map_of (acc_procedures ?h) ''99213'' = Some ?st" by simp
  obtain row p where
    "row \<in> set [\<lparr>r_provnum = ''001'', r_category = ''99213'', r_volume = ''8'',
                          r_TotalCharges = ''1'', r_TotalCost = [], r_TotalPaid = []\<rparr>]"
    "parse_row row = Inr p" "volume ?st = p_volume p"
    "total_charges ?st = round_amount (p_total_charges p)"
    "avg_charge ?st = round_amount (p_avg_charge p)"
    "if 0 < volume ?st then true_div (p_total_charges p) (volume ?st) = Inr (p_avg_charge p)
     else avg_charge ?st = Int0"
    using stored_averages_are_rounded_quotients [OF example_single_row_load l1 l2] by blast
  then show ?thesis
    by (intro exI[of _ row] exI[of _ p]) simp
qed

text \<open>
  The claim as stated fails on both counts. From the row \<open>001|99213|8|1||\<close> the stored
  total is \<open>1.0\<close> and the stored average is the float \<open>0.12\<close>, which is not the quotient
  \<open>1 / 8\<close>; from the row \<open>001|99213|8|-1||\<close> the stored average is \<open>-0.12\<close>, a negative
  number.
\<close>

theorem stored_average_is_rounded_and_can_be_negative:
  "load_hospital_price_data
     [\<lparr>r_provnum = ''001'', r_category = ''99213'', r_volume = ''8'',
        r_TotalCharges = ''1'', r_TotalCost = [], r_TotalPaid = []\<rparr>]
   = Inr [(''001'',
       \<lparr>acc_procedures =
          [(''99213'',
            \<lparr>volume = 8, total_charges = Flt (Fin 1), total_cost = Int0,
               total_paid = Int0,
               avg_charge = Flt (Fin (1080863910568919 / 9007199254740992)),
               avg_cost = Flt (Fin 0), avg_paid = Flt (Fin 0)\<rparr>)],
          acc_total_volume = 8, acc_total_charges = Flt (Fin 1),
          acc_total_cost = Int0, acc_total_paid = Int0\<rparr>)]
   \<and> true_div (Flt (Fin 1)) 8 = Inr (Flt (Fin (1 / 8)))
   \<and> Flt (Fin (1080863910568919 / 9007199254740992)) \<noteq> Flt (Fin (1 / 8))
   \<and> load_hospital_price_data
     [\<lparr>r_provnum = ''001'', r_category = ''99213'', r_volume = ''8'',
        r_TotalCharges = ''-1'', r_TotalCost = [], r_TotalPaid = []\<rparr>]
   = Inr [(''001'',
       \<lparr>acc_procedures =
          [(''99213'',
            \<lparr>volume = 8, total_charges = Flt (Fin (- 1)), total_cost = Int0,
               total_paid = Int0,
               avg_charge = Flt (Fin (- (1080863910568919 / 9007199254740992))),
               avg_cost = Flt (Fin 0), avg_paid = Flt (Fin 0)\<rparr>)],
          acc_total_volume = 8, acc_total_charges = Flt (Fin (- 1)),
          acc_total_cost = Int0, acc_total_paid = Int0\<rparr>)]
   \<and> amount_negative (Flt (Fin (- (1080863910568919 / 9007199254740992))))"
  by (simp add: example_single_row_load example_negative_row_load float_of_int_small
      to_double_eighth)

section \<open>Properties of the reference loaders\<close>

subsection \<open>Rows the facility loader drops\<close>

lemma facility_step_dropped: "\<not> keeps_row row \<Longrightarrow> facility_step fm row = Inr fm"
  by (simp add: facility_step_def)

lemma facility_step_other_key:
  assumes "facility_step fm row = Inr fm'" and "keeps_row row \<longrightarrow> get_str row ''provnum'' \<noteq> pn"
  shows "map_of fm' pn = map_of fm pn"
  using assms
  by (auto simp: facility_step_def update_conv' split: if_splits sum.splits)

lemma facility_loop_no_entry:
  assumes "facility_loop fm df = Inr fm'"
      and "\<forall>r \<in> set df. get_str r ''provnum'' = pn \<longrightarrow> \<not> keeps_row r"
  shows "map_of fm' pn = map_of fm pn"
  using assms
proof (induction df arbitrary: fm)
  case Nil
  then show ?case by simp
next
  case (Cons r df)
  from Cons.prems(1) obtain fm1 where step: "facility_step fm r = Inr fm1"
    and rest: "facility_loop fm1 df = Inr fm'"
    by (auto split: sum.splits)
  have "keeps_row r \<longrightarrow> get_str r ''provnum'' \<noteq> pn"
    using Cons.prems(2) by auto
  then have "map_of fm1 pn = map_of fm pn"
    using step by (rule facility_step_other_key[rotated])
  moreover have "map_of fm' pn = map_of fm1 pn"
    using rest Cons.prems(2) by (intro Cons.IH) auto
  ultimately show ?case by simp
qed

text \<open>
  A row that fails the guard of line 117 leaves the facility map as it was, and a provnum
  for which no row of the table passes the guard has no entry in the loaded map.
\<close>

lemma load_facility_data_no_entry:
  assumes "\<forall>r \<in> set df. get_str r ''provnum'' = pn \<longrightarrow> \<not> keeps_row r"
  shows "map_of (load_facility_data (Inr df)) pn = None"
proof (cases "facility_loop [] df")
  case (Inl e)
  then show ?thesis by (simp add: load_facility_data_def)
next
  case (Inr fm)
  then have "map_of fm pn = map_of [] pn"
    using assms by (rule facility_loop_no_entry)
  then show ?thesis using Inr by (simp add: load_facility_data_def)
qed

text \<open>
  Claim C10. The loader does drop a row whose facility name is blank or \<open>nan\<close>, and a row
  whose provnum is the empty string. It does not drop a row whose provnum cell is blank:
  \<open>pd.read_excel\<close> gives NaN for the cell, \<open>str\<close> prints it as \<open>nan\<close>, and the guard of
  line 117 tests the facility name against \<open>nan\<close> but not the provnum, which the guards of
  lines 157 and 185 do for their codes. The row is stored under the key \<open>nan\<close> with its
  city and its beds, where the procedure-name loader drops the row of a blank code.
\<close>

theorem blank_provnum_row_is_kept:
  "get_str [''provnum'' \<mapsto> CNaN, ''facility_name'' \<mapsto> CStr ''General'',
            ''city'' \<mapsto> CStr ''Troy'', ''beds_total'' \<mapsto> CInt 120] ''provnum'' = ''nan''
 \<and> keeps_row [''provnum'' \<mapsto> CNaN, ''facility_name'' \<mapsto> CStr ''General'',
              ''city'' \<mapsto> CStr ''Troy'', ''beds_total'' \<mapsto> CInt 120]
 \<and> load_facility_data
      (Inr [[''provnum'' \<mapsto> CNaN, ''facility_name'' \<mapsto> CStr ''General'',
             ''city'' \<mapsto> CStr ''Troy'', ''beds_total'' \<mapsto> CInt 120]])
    = [(''nan'',
        \<lparr>fi_name = ''General'', fi_city = ''Troy'', fi_state = [], fi_zip_code = [],
           fi_beds_total = 120, fi_hospital_type = [], fi_ownership = []\<rparr>)]
 \<and> load_procedure_names
      (Inr [[''HCPCS Code'' \<mapsto> CNaN, ''Short Descriptor'' \<mapsto> CStr ''Office visit'']]) = []"
  by code_simp

subsection \<open>Failures are replaced by empty results\<close>



subsection \<open>Code tables\<close>







subsection \<open>Procedure names\<close>

lemma procedure_step_guard:
  "procedure_step pm row =
     (if has_description row
      then AList.update (get_str row ''HCPCS Code'') (get_str row ''Short Descriptor'') pm
      else pm)"
  by (simp add: procedure_step_def has_description_def Let_def)

lemma map_of_foldl_procedure_step:
  "map_of (foldl procedure_step pm df) c =
     (if [r\<leftarrow>df. has_description r \<and> get_str r ''HCPCS Code'' = c] = [] then map_of pm c
      else Some (get_str (last [r\<leftarrow>df. has_description r \<and> get_str r ''HCPCS Code'' = c])
                  ''Short Descriptor''))"
  by (induction df arbitrary: pm) (auto simp: procedure_step_guard update_conv')

lemma keys_foldl_update:
  "fst ` set (foldl (\<lambda>al p. AList.update (f p) (g p) al) al ps) = fst ` set al \<union> f ` set ps"
  by (induction ps arbitrary: al) (auto simp: dom_update)

lemma keys_foldl_accumulate:
  "fst ` set (foldl accumulate hdata ps) = fst ` set hdata \<union> p_provnum ` set ps"
  by (induction ps arbitrary: hdata) (auto simp: accumulate_def dom_update)

lemma codes_of_foldl_accumulate:
  "set (concat (map (\<lambda>(pn, data). map fst (acc_procedures data)) (foldl accumulate [] ps)))
   = p_category ` set ps"
proof -
  let ?hdata = "foldl accumulate [] ps"
  have dist: "distinct (map fst ?hdata)"
    by (rule distinct_foldl_accumulate) simp
  have entry: "fst ` set (acc_procedures data) = p_category ` set [p\<leftarrow>ps. p_provnum p = pn]
               \<and> [p\<leftarrow>ps. p_provnum p = pn] \<noteq> []"
    if "(pn, data) \<in> set ?hdata" for pn data
  proof -
    have "map_of ?hdata pn = Some data"
      using that dist by simp
    then have ne: "[p\<leftarrow>ps. p_provnum p = pn] \<noteq> []"
      and data: "data = foldl update_acc default_acc [p\<leftarrow>ps. p_provnum p = pn]"
      by (simp_all add: map_of_foldl_accumulate get_acc_def split: if_splits)
    show ?thesis
      using ne by (simp add: data procedures_foldl_update_acc keys_foldl_update default_acc_def)
  qed
  show ?thesis
  proof (intro set_eqI iffI)
    fix c assume "c \<in> set (concat (map (\<lambda>(pn, data). map fst (acc_procedures data)) ?hdata))"
    then obtain pn data where "(pn, data) \<in> set ?hdata" "c \<in> fst ` set (acc_procedures data)"
      by auto
    then show "c \<in> p_category ` set ps"
      using entry by auto
  next
    fix c assume "c \<in> p_category ` set ps"
    then obtain p where p: "p \<in> set ps" "c = p_category p"
      by auto
    then have "p_provnum p \<in> fst ` set ?hdata"
      by (simp add: keys_foldl_accumulate)
    then obtain data where mem: "(p_provnum p, data) \<in> set ?hdata"
      by auto
    then have "fst ` set (acc_procedures data) = p_category ` set [q\<leftarrow>ps. p_provnum q = p_provnum p]"
      using entry by blast
    then have "c \<in> fst ` set (acc_procedures data)"
      using p by auto
    then show "c \<in> set (concat (map (\<lambda>(pn, data). map fst (acc_procedures data)) ?hdata))"
      using mem by force
  qed
qed

lemma parse_rows_categories:
  "parse_rows rows = Inr ps \<Longrightarrow> p_category ` set ps = r_category ` set rows"
proof -
  assume "parse_rows rows = Inr ps"
  then have "map (\<lambda>p. (p_provnum p, p_category p)) ps = map (\<lambda>r. (r_provnum r, r_category r)) rows"
    by (rule parse_rows_keys)
  then have "map snd (map (\<lambda>p. (p_provnum p, p_category p)) ps)
           = map snd (map (\<lambda>r. (r_provnum r, r_category r)) rows)"
    by simp
  then have "map p_category ps = map r_category rows"
    by (simp add: comp_def)
  then have "set (map p_category ps) = set (map r_category rows)"
    by simp
  then show ?thesis by simp
qed

lemma example_names_table:
  "load_procedure_names
     (Inr [[''HCPCS Code'' \<mapsto> CStr ''99214'', ''Short Descriptor'' \<mapsto> CStr ''Office visit'']])
   = [(''99214'', ''Office visit'')]"
  by code_simp

text \<open>
  Claim C9, as amended. The output's \<open>procedure_codes\<close> are the codes of the rows of the
  extract, and its \<open>procedure_names\<close> is the loader's mapping, unchanged. For every code
  \<open>c\<close>, so for every code of \<open>procedure_codes\<close>: if the read failed, or the table has no
  row with code \<open>c\<close> that passes the guard of line 157, the mapping has no entry for \<open>c\<close>;
  otherwise its entry is the description of the last such row. No entry is the empty
  string.
\<close>

theorem procedure_names_hold_known_descriptions_only:
  assumes "process_and_export_data rows facility_xl procedure_xl service_xl = Inr out"
  shows "procedure_codes out = r_category ` set rows
       \<and> procedure_names out = load_procedure_names procedure_xl
       \<and> (\<forall>e. procedure_xl = Inl e \<longrightarrow> map_of (procedure_names out) c = None)
       \<and> (\<forall>df. procedure_xl = Inr df \<longrightarrow>
             map_of (procedure_names out) c =
               (if [r\<leftarrow>df. has_description r \<and> get_str r ''HCPCS Code'' = c] = [] then None
                else Some (get_str (last [r\<leftarrow>df. has_description r \<and> get_str r ''HCPCS Code'' = c])
                            ''Short Descriptor'')))
       \<and> map_of (procedure_names out) c \<noteq> Some []"
proof -
  obtain hdata where load: "load_hospital_price_data rows = Inr hdata"
    and out: "procedure_names out = load_procedure_names procedure_xl"
    "procedure_codes out = set (concat (map (\<lambda>(pn, data). map fst (acc_procedures data)) hdata))"
    using run_returns[OF assms] by blast
  obtain ps where ps: "parse_rows rows = Inr ps" and hdata: "hdata = foldl accumulate [] ps"
    using load by (cases "parse_rows rows") (simp_all add: load_parse_rows)
  have codes: "procedure_codes out = r_category ` set rows"
    unfolding out(2) hdata codes_of_foldl_accumulate by (rule parse_rows_categories[OF ps])
  have failed: "map_of (procedure_names out) c = None" if "procedure_xl = Inl e" for e
    by (simp add: out(1) that load_procedure_names_def)
  have table: "map_of (procedure_names out) c =
               (if [r\<leftarrow>df. has_description r \<and> get_str r ''HCPCS Code'' = c] = [] then None
                else Some (get_str (last [r\<leftarrow>df. has_description r \<and> get_str r ''HCPCS Code'' = c])
                            ''Short Descriptor''))"
    if "procedure_xl = Inr df" for df
    by (simp add: out(1) that load_procedure_names_def map_of_foldl_procedure_step)
  have nonempty: "map_of (procedure_names out) c \<noteq> Some []"
  proof (cases procedure_xl)
    case (Inl e)
    then show ?thesis using failed by simp
  next
    case (Inr df)
    let ?rs = "[r\<leftarrow>df. has_description r \<and> get_str r ''HCPCS Code'' = c]"
    show ?thesis
    proof (cases "?rs = []")
      case True
      then show ?thesis using table[OF Inr] by simp
    next
      case False
      then have "last ?rs \<in> set ?rs" by (rule last_in_set)
      then have "has_description (last ?rs)" by simp
      then have "get_str (last ?rs) ''Short Descriptor'' \<noteq> []"
        by (simp add: has_description_def)
      then show ?thesis using table[OF Inr] False by simp
    qed
  qed
  show ?thesis
    using codes out(1) failed table nonempty by blast
qed

theorem procedure_names_hold_known_descriptions_only_witness:
  "\<exists>out.
     process_and_export_data
       [\<lparr>r_provnum = ''001'', r_category = ''99213'', r_volume = ''8'',
          r_TotalCharges = ''1'', r_TotalCost = [], r_TotalPaid = []\<rparr>]
       (Inl OSError)
       (Inr [[''HCPCS Code'' \<mapsto> CStr ''99214'', ''Short Descriptor'' \<mapsto> CStr ''Office visit'']])
       (Inl OSError) = Inr out
   \<and> procedure_codes out = {''99213''}
   \<and> map_of (procedure_names out) ''99213'' = None
   \<and> map_of (procedure_names out) ''99214'' = Some ''Office visit''"
proof -
  let ?rows = "[\<lparr>r_provnum = ''001'', r_category = ''99213'', r_volume = ''8'',
          r_TotalCharges = ''1'', r_TotalCost = [], r_TotalPaid = []\<rparr>]"
  let ?row = "[''HCPCS Code'' \<mapsto> CStr ''99214'', ''Short Descriptor'' \<mapsto> CStr ''Office visit'']"
  have "\<not> (\<exists>x \<in> set [(''001'',
       \<lparr>acc_procedures =
          [(''99213'',
            \<lparr>volume = 8, total_charges = Flt (Fin 1), total_cost = Int0,
               total_paid = Int0,
               avg_charge = Flt (Fin (1080863910568919 / 9007199254740992)),
               avg_cost = Flt (Fin 0), avg_paid = Flt (Fin 0)\<rparr>)],
          acc_total_volume = 8, acc_total_charges = Flt (Fin 1),
          acc_total_cost = Int0, acc_total_paid = Int0\<rparr>)]. 2 ^ 1023 \<le> acc_total_volume (snd x))"
    by simp
  then obtain out where run:
    "process_and_export_data ?rows (Inl OSError) (Inr [?row]) (Inl OSError) = Inr out"
    using run_output [OF example_single_row_load, of "Inl OSError" "Inr [?row]" "Inl OSError"]
    by blast
  have code: "get_str ?row ''HCPCS Code'' = ''99214''"
    and descr: "get_str ?row ''Short Descriptor'' = ''Office visit''"
    by code_simp+
  have ok: "has_description ?row"
    unfolding has_description_def code descr by simp
  have a: "procedure_codes out = {''99213''}"
    using procedure_names_hold_known_descriptions_only [OF run] by simp
  have tbl: "map_of (procedure_names out) c =
       (if [r\<leftarrow>[?row]. has_description r \<and> get_str r ''HCPCS Code'' = c] = [] then None
        else Some (get_str (last [r\<leftarrow>[?row]. has_description r \<and> get_str r ''HCPCS Code'' = c])
                    ''Short Descriptor''))" for c
    using procedure_names_hold_known_descriptions_only [OF run, of c] by blast
  have b: "map_of (procedure_names out) ''99213'' = None"
    unfolding tbl by (simp add: code)
  have c: "map_of (procedure_names out) ''99214'' = Some ''Office visit''"
    unfolding tbl by (simp add: code descr ok)
  show ?thesis
    using run a b c by blast
qed

text \<open>
  The claim as stated fails: with the single pricing row \<open>001|99213|8|1||\<close> and a name
  table that describes only \<open>99214\<close>, the code \<open>99213\<close> is in \<open>procedure_codes\<close> and has
  no entry in \<open>procedure_names\<close>.
\<close>

theorem code_without_description_is_omitted:
  "process_and_export_data
     [\<lparr>r_provnum = ''001'', r_category = ''99213'', r_volume = ''8'',
        r_TotalCharges = ''1'', r_TotalCost = [], r_TotalPaid = []\<rparr>]
     (Inl OSError)
     (Inr [[''HCPCS Code'' \<mapsto> CStr ''99214'', ''Short Descriptor'' \<mapsto> CStr ''Office visit'']])
     (Inl OSError)
   = Inr \<lparr>hospitals =
        [(''001'',
          \<lparr>name = ''Hospital 001'', provnum = ''001'', city = [],
             state = [], zip_code = [], beds_total = 0, hospital_type = [],
             ownership = [],
             procedures =
               [(''99213'',
                 \<lparr>volume = 8, total_charges = Flt (Fin 1), total_cost = Int0,
                    total_paid = Int0,
                    avg_charge = Flt (Fin (1080863910568919 / 9007199254740992)),
                    avg_cost = Flt (Fin 0), avg_paid = Flt (Fin 0)\<rparr>)],
             summary =
               \<lparr>total_volume = 8, sum_total_charges = Flt (Fin 1),
                  sum_total_cost = Int0, sum_total_paid = Int0,
                  avg_charge_per_case =
                    Flt (Fin (1080863910568919 / 9007199254740992))\<rparr>\<rparr>)],
        procedure_codes = {''99213''},
        procedure_names = [(''99214'', ''Office visit'')],
        service_categories = [], service_category_map = [],
        shoppable_map = []\<rparr>
   \<and> ''99213'' \<in> {''99213''}
   \<and> map_of [(''99214'', ''Office visit'')] ''99213'' = None"
  by (simp add: process_and_export_data_def example_single_row_load example_names_table
      load_facility_data_def load_service_categories_def format_hospitals_def summary_of_def
      average_examples unified_record_def round2_one round2_eighth del: round2.simps(1))


section \<open>Properties of the chunk partitioner\<close>

lemma py_range_lower: "j \<in> set (py_range i n c) \<Longrightarrow> i \<le> j"
proof (induction i n c rule: py_range.induct)
  case (1 i n step)
  show ?case
  proof (cases "i < n \<and> 0 < step")
    case True
    then have "py_range i n step = i # py_range (i + step) n step"
      by (subst py_range.simps) simp
    then have "j = i \<or> j \<in> set (py_range (i + step) n step)"
      using "1.prems" by simp
    then show ?thesis
      using "1.IH"[OF True] by auto
  next
    case False
    then have "py_range i n step = []"
      by (subst py_range.simps) simp
    then show ?thesis using "1.prems" by simp
  qed
qed

lemma py_range_chunk_nums_distinct: "distinct (map (\<lambda>i. i div c) (py_range i n c))"
proof (induction i n c rule: py_range.induct)
  case (1 i n step)
  show ?case
  proof (cases "i < n \<and> 0 < step")
    case True
    then have unfold: "py_range i n step = i # py_range (i + step) n step"
      by (subst py_range.simps) simp
    have "i div step \<noteq> j div step" if "j \<in> set (py_range (i + step) n step)" for j
    proof -
      have "i + step \<le> j" using that by (rule py_range_lower)
      then have "(i + step) div step \<le> j div step" by (rule div_le_mono)
      moreover have "(i + step) div step = i div step + 1" using True by simp
      ultimately show ?thesis by simp
    qed
    then show ?thesis
      using "1.IH"[OF True] unfold by auto
  next
    case False
    then have "py_range i n step = []"
      by (subst py_range.simps) simp
    then show ?thesis by simp
  qed
qed

lemma concat_slices:
  "0 < c \<Longrightarrow> concat (map (\<lambda>i. take c (drop i xs)) (py_range i (length xs) c)) = drop i xs"
proof (induction i "length xs" c rule: py_range.induct)
  case (1 i step)
  show ?case
  proof (cases "i < length xs")
    case True
    then have unfold: "py_range i (length xs) step = i # py_range (i + step) (length xs) step"
      using "1.prems" by (subst py_range.simps) simp
    have rest: "concat (map (\<lambda>i. take step (drop i xs)) (py_range (i + step) (length xs) step))
          = drop (i + step) xs"
      using "1.hyps" True "1.prems" by simp
    have "drop (i + step) xs = drop step (drop i xs)"
      by (simp add: add.commute)
    then have "concat (map (\<lambda>i. take step (drop i xs)) (py_range i (length xs) step))
          = take step (drop i xs) @ drop step (drop i xs)"
      using rest by (simp only: unfold list.map concat.simps)
    then show ?thesis by (simp only: append_take_drop_id)
  next
    case False
    then have "py_range i (length xs) step = []"
      by (subst py_range.simps) simp
    then show ?thesis using False by simp
  qed
qed

lemma py_dict_distinct: "distinct (map fst kvs) \<Longrightarrow> py_dict kvs = kvs"
proof -
  assume "distinct (map fst kvs)"
  then have "foldl (\<lambda>al p. AList.update (fst p) (snd p) al) [] kvs
             = [] @ map (\<lambda>p. (fst p, snd p)) kvs"
    by (intro foldl_update_distinct) simp_all
  then show ?thesis
    by (simp add: py_dict_def case_prod_unfold)
qed

lemma distinct_slice: "distinct (map fst xs) \<Longrightarrow> distinct (map fst (take c (drop i xs)))"
proof -
  assume "distinct (map fst xs)"
  then have "distinct (take c (drop i (map fst xs)))"
    by simp
  then show ?thesis
    by (simp only: take_map drop_map)
qed

lemma chunk_files_slices:
  assumes "distinct (map fst xs)"
  shows "chunk_files xs =
           map (\<lambda>i. (chunk_filename (i div chunk_size), take chunk_size (drop i xs)))
             (py_range 0 (length xs) chunk_size)"
  using assms
  by (simp add: chunk_files_def write_chunk_def py_slice_def py_dict_distinct distinct_slice Let_def)

lemma digit_val_digit_char: "d < 10 \<Longrightarrow> digit_val (digit_char d) = d"
  by (simp add: digit_val_def)

lemma nat_of_digits_snoc: "nat_of_digits (ds @ [d]) = 10 * nat_of_digits ds + d"
  by (simp add: nat_of_digits_def)

lemma nat_of_show_nat: "nat_of_digits (map digit_val (show_nat n)) = n"
proof (induction n rule: show_nat.induct)
  case (1 n)
  show ?case
  proof (cases "n < 10")
    case True
    then show ?thesis
      by (subst show_nat.simps) (simp add: nat_of_digits_def digit_val_digit_char del: digit_char.simps)
  next
    case False
    have "n mod 10 < 10" by simp
    then have d: "digit_val (digit_char (n mod 10)) = n mod 10"
      by (rule digit_val_digit_char)
    have "show_nat n = show_nat (n div 10) @ [digit_char (n mod 10)]"
      using False by (subst show_nat.simps) simp
    then show ?thesis
      using "1.IH"[OF False] d by (simp add: nat_of_digits_snoc del: digit_char.simps)
  qed
qed

lemma nat_of_digits_zeros: "nat_of_digits (replicate k 0 @ ds) = nat_of_digits ds"
proof -
  have "foldl (\<lambda>a d. 10 * a + d) 0 (replicate k 0) = (0 :: nat)"
    by (induction k) simp_all
  then show ?thesis by (simp add: nat_of_digits_def)
qed

lemma nat_of_format_03d: "nat_of_digits (map digit_val (format_03d n)) = n"
proof -
  have "digit_val (CHR ''0'') = 0" by (simp add: digit_val_def)
  then show ?thesis
    by (simp add: format_03d_def nat_of_digits_zeros nat_of_show_nat)
qed

lemma chunk_filename_inj: "chunk_filename m = chunk_filename n \<Longrightarrow> m = n"
proof -
  assume "chunk_filename m = chunk_filename n"
  then have "format_03d m = format_03d n"
    by (simp add: chunk_filename_def)
  then have "nat_of_digits (map digit_val (format_03d m)) = nat_of_digits (map digit_val (format_03d n))"
    by simp
  then show ?thesis by (simp only: nat_of_format_03d)
qed

lemma distinct_chunk_filenames:
  "distinct (map (\<lambda>i. chunk_filename (i div chunk_size)) (py_range 0 n chunk_size))"
proof -
  let ?nums = "map (\<lambda>i. i div chunk_size) (py_range 0 n chunk_size)"
  have nums: "distinct ?nums"
    by (rule py_range_chunk_nums_distinct)
  have "inj_on chunk_filename (set ?nums)"
    by (intro inj_onI) (rule chunk_filename_inj)
  then have "distinct (map chunk_filename ?nums)"
    using nums by (simp only: distinct_map simp_thms)
  then show ?thesis by (simp add: comp_def)
qed

lemma mset_keys_in_filename_order:
  "mset (keys_in_filename_order files) = mset (concat (map (\<lambda>(filename, chunk). map fst chunk) files))"
proof -
  let ?f = "\<lambda>(filename, chunk). map fst chunk"
  have "mset (concat (map ?f ys)) = sum_mset (image_mset (\<lambda>x. mset (?f x)) (mset ys))" for ys :: "(string \<times> ('a \<times> 'b) list) list"
    by (induction ys) simp_all
  then show ?thesis
    by (simp add: keys_in_filename_order_def)
qed

lemma keys_of_chunk_files:
  assumes "distinct (map fst xs)"
  shows "concat (map (\<lambda>(filename, chunk). map fst chunk) (chunk_files xs)) = map fst xs"
proof -
  let ?r = "py_range 0 (length xs) chunk_size"
  have "concat (map (\<lambda>(filename, chunk). map fst chunk) (chunk_files xs))
        = concat (map (\<lambda>i. take chunk_size (drop i (map fst xs))) ?r)"
    by (simp add: chunk_files_slices[OF assms] comp_def take_map drop_map)
  also have "\<dots> = concat (map (\<lambda>i. take chunk_size (drop i (map fst xs)))
                       (py_range 0 (length (map fst xs)) chunk_size))"
    by simp
  also have "\<dots> = drop 0 (map fst xs)"
    by (rule concat_slices) (simp add: chunk_size_def)
  finally show ?thesis by simp
qed

lemma filenames_of_chunk_files:
  "map fst (chunk_files xs) = map (\<lambda>i. chunk_filename (i div chunk_size)) (py_range 0 (length xs) chunk_size)"
  by (simp add: chunk_files_def write_chunk_def Let_def comp_def)

lemma py_range_2500: "py_range 0 2500 chunk_size = [0, 1000, 2000]"
  unfolding chunk_size_def by code_simp

lemma example_filenames:
  "chunk_filename 0 = ''hospitals_000.json''"
  "chunk_filename (Suc 0) = ''hospitals_001.json''"
  "chunk_filename 2 = ''hospitals_002.json''"
  by code_simp+

lemma chunks_of_index:
  "chunks (make_index xs) =
     map (\<lambda>(filename, chunk). \<lparr>ci_file = filename, ci_hospitals = length chunk\<rparr>) (chunk_files xs)"
  by (simp add: make_index_def)

lemma show_nat_inj: "inj show_nat"
proof (rule injI)
  fix m n assume "show_nat m = show_nat n"
  then have "nat_of_digits (map digit_val (show_nat m)) = nat_of_digits (map digit_val (show_nat n))"
    by simp
  then show "m = n" by (simp only: nat_of_show_nat)
qed

text \<open>
  Claim C3. Let \<open>hospitals_dict\<close> be a dictionary: its keys are distinct. The keys of the
  chunk files, concatenated in the order the files are written, are the keys of the
  dictionary in its own order. No two chunk files have the same name, so none is
  overwritten. Read in the order of the file names, the keys of the chunk files have no
  duplicates, and they are exactly the keys of the dictionary, as many as it has. The
  index's \<open>total_hospitals\<close> is that number and the per-chunk counts add up to it; the
  index lists the files in the order written. With 2500 facilities the index lists
  \<open>hospitals_000.json\<close>, \<open>hospitals_001.json\<close> and \<open>hospitals_002.json\<close> with 1000, 1000
  and 500 facilities.
\<close>

theorem chunks_partition_hospitals:
  assumes "distinct (map fst hospitals_dict)"
  shows "concat (map (\<lambda>(filename, chunk). map fst chunk) (chunk_files hospitals_dict))
           = map fst hospitals_dict
       \<and> distinct (map fst (chunk_files hospitals_dict))
       \<and> distinct (keys_in_filename_order (chunk_files hospitals_dict))
       \<and> set (keys_in_filename_order (chunk_files hospitals_dict)) = fst ` set hospitals_dict
       \<and> length (keys_in_filename_order (chunk_files hospitals_dict)) = length hospitals_dict
       \<and> total_hospitals (make_index hospitals_dict) = length hospitals_dict
       \<and> sum_list (map ci_hospitals (chunks (make_index hospitals_dict)))
           = total_hospitals (make_index hospitals_dict)
       \<and> map ci_file (chunks (make_index hospitals_dict)) = map fst (chunk_files hospitals_dict)
       \<and> (length hospitals_dict = 2500 \<longrightarrow>
            chunks (make_index hospitals_dict) =
              [\<lparr>ci_file = ''hospitals_000.json'', ci_hospitals = 1000\<rparr>,
               \<lparr>ci_file = ''hospitals_001.json'', ci_hospitals = 1000\<rparr>,
               \<lparr>ci_file = ''hospitals_002.json'', ci_hospitals = 500\<rparr>])"
proof -
  let ?files = "chunk_files hospitals_dict"
  have keys: "concat (map (\<lambda>(filename, chunk). map fst chunk) ?files) = map fst hospitals_dict"
    using assms by (rule keys_of_chunk_files)
  have names: "distinct (map fst ?files)"
    unfolding filenames_of_chunk_files by (rule distinct_chunk_filenames)
  have ms: "mset (keys_in_filename_order ?files) = mset (map fst hospitals_dict)"
    by (simp only: mset_keys_in_filename_order keys)
  have d: "distinct (keys_in_filename_order ?files)"
    using mset_eq_imp_distinct_iff[OF ms] assms by simp
  have s: "set (keys_in_filename_order ?files) = fst ` set hospitals_dict"
    using mset_eq_setD[OF ms] by simp
  have l: "length (keys_in_filename_order ?files) = length hospitals_dict"
    using mset_eq_length[OF ms] by simp
  have t: "total_hospitals (make_index hospitals_dict) = length hospitals_dict"
    by (simp add: make_index_def)
  have "sum_list (map ci_hospitals (chunks (make_index hospitals_dict)))
        = length (concat (map (\<lambda>(filename, chunk). map fst chunk) ?files))"
    by (simp add: chunks_of_index length_concat comp_def case_prod_unfold)
  then have sm: "sum_list (map ci_hospitals (chunks (make_index hospitals_dict)))
        = total_hospitals (make_index hospitals_dict)"
    by (simp only: keys t length_map)
  have f: "map ci_file (chunks (make_index hospitals_dict)) = map fst ?files"
    by (simp add: chunks_of_index comp_def case_prod_unfold)
  have ex: "chunks (make_index hospitals_dict) =
              [\<lparr>ci_file = ''hospitals_000.json'', ci_hospitals = 1000\<rparr>,
               \<lparr>ci_file = ''hospitals_001.json'', ci_hospitals = 1000\<rparr>,
               \<lparr>ci_file = ''hospitals_002.json'', ci_hospitals = 500\<rparr>]"
    if len: "length hospitals_dict = 2500"
  proof -
    have "?files = map (\<lambda>i. (chunk_filename (i div chunk_size), take chunk_size (drop i hospitals_dict)))
             [0, 1000, 2000]"
      using chunk_files_slices[OF assms] by (simp only: len py_range_2500)
    then show ?thesis
      by (simp add: chunks_of_index chunk_size_def example_filenames len)
  qed
  show ?thesis
    using keys names d s l t sm f ex by blast
qed

theorem chunks_partition_hospitals_witness:
  "chunks (make_index (map (\<lambda>i. (show_nat i, i)) [0..<2500])) =
     [\<lparr>ci_file = ''hospitals_000.json'', ci_hospitals = 1000\<rparr>,
      \<lparr>ci_file = ''hospitals_001.json'', ci_hospitals = 1000\<rparr>,
      \<lparr>ci_file = ''hospitals_002.json'', ci_hospitals = 500\<rparr>]
 \<and> total_hospitals (make_index (map (\<lambda>i. (show_nat i, i)) [0..<2500])) = 2500
 \<and> concat (map (\<lambda>(filename, chunk). map fst chunk)
      (chunk_files (map (\<lambda>i. (show_nat i, i)) [0..<2500]))) = map show_nat [0..<2500]
 \<and> distinct (keys_in_filename_order (chunk_files (map (\<lambda>i. (show_nat i, i)) [0..<2500])))"
proof -
  let ?h = "map (\<lambda>i. (show_nat i, i)) [0..<2500]"
  have "inj_on show_nat (set [0..<2500])"
    using show_nat_inj by (rule inj_on_subset) simp
  then have dist: "distinct (map fst ?h)"
    by (simp add: comp_def distinct_map)
  have len: "length ?h = 2500"
    by simp
  show ?thesis
    using chunks_partition_hospitals [OF dist] len by (simp add: comp_def)
qed

end
